theory Spec2Isabelle
  imports Complex_Main
begin

section \<open>SkyGuard: the per-tick engine of \<open>src/components/DroneSimulation.tsx\<close>\<close>

text \<open>
  The engine is the class \<open>Drone\<close> (its methods \<open>calculateDistance\<close>, \<open>moveTo\<close>,
  \<open>fireAt\<close>, \<open>update\<close>, \<open>calculateThreatScore\<close>, \<open>isCriticalThreat\<close>,
  \<open>shouldEngage\<close>, \<open>maintainDefensivePosition\<close>, \<open>patrolPosition\<close>,
  \<open>applySeparation\<close>) and the function \<open>updateSimulation\<close> with its helper
  \<open>createExplosion\<close>. Conventions of the embedding:

  \<^item> a JavaScript \<open>number\<close> is a \<open>real\<close> (rounding of doubles is not modelled); the
    timestamps of \<open>Date.now()\<close> are \<open>int\<close>; array indices and counters are \<open>nat\<close>;
    \<open>Infinity\<close> as the start value of a minimum search is the accumulator \<open>None\<close>;
  \<^item> a drone object is referred to by the collection it lives in and its index there
    (\<open>DroneRef\<close>); the field \<open>isFriendly\<close>, written by the constructor only, is that
    collection. The stored reference \<open>target\<close> outlives removals from the arrays, so
    it is kept as the \<open>id\<close> of the drone it points to (\<open>initSimulation\<close> gives every
    drone its own id);
  \<^item> mutation is explicit state passing on the record \<open>Sim\<close>;
  \<^item> \<open>Math.random()\<close> and \<open>Date.now()\<close> are oracles carried in the state: the
    sequence of values they will return and the number of values consumed so far;
  \<^item> fields whose source name is also a HOL constant, or is shared by two interfaces,
    carry a suffix: \<open>_d\<close> (Drone), \<open>_a\<close> (Asset), \<open>_p\<close> (Particle).
\<close>

subsection \<open>Constants and types\<close>

definition THREATENING_RANGE :: real where "THREATENING_RANGE = 150"
definition FIRING_RANGE :: real where "FIRING_RANGE = 50"
definition JAMMING_RANGE :: real where "JAMMING_RANGE = 100"
definition DRONE_SPEED :: real where "DRONE_SPEED = 2"
definition BOMBER_SPEED :: real where "BOMBER_SPEED = 12 / 10"
definition HOSTILE_SPEED :: real where "HOSTILE_SPEED = 15 / 10"

datatype FormationType = Circle | Arrowhead | Spearhead | DoubleFile | ExtendedLine

datatype DroneType = TDrone | TBomber

record Asset =
  x_a :: real
  y_a :: real
  size_a :: real
  type_a :: string
  label :: string
  priority :: real
  health_a :: real
  maxHealth :: real

record Particle =
  x_p :: real
  y_p :: real
  vx_p :: real
  vy_p :: real
  life :: real
  maxLife :: real
  color :: string
  size_p :: real

record Drone =
  id_d :: string
  x_d :: real
  y_d :: real
  vx :: real
  vy :: real
  type_d :: DroneType
  target :: "string option"
  health_d :: real
  isEngaging :: bool
  trail :: "(real \<times> real) list"
  lastFired :: int
  lostCoords :: "(real \<times> real) option"
  isJammed :: bool
  jammingTargets :: "string list"

record Sim =
  friendlyDrones :: "Drone list"
  hostileDrones :: "Drone list"
  groundAssets :: "Asset list"
  destroyedAssets :: "Asset list"
  particles :: "Particle list"
  friendlyLosses :: nat
  clock :: "nat \<Rightarrow> int"
  reads :: nat
  random :: "nat \<Rightarrow> real"
  draws :: nat

datatype DroneRef = Friendly nat | Hostile nat

datatype TargetRef = DroneT DroneRef | AssetT nat

text \<open>The constructor of \<open>Drone\<close>; the argument \<open>isFriendly\<close> decides the collection.\<close>

definition newDrone :: "string \<Rightarrow> real \<Rightarrow> real \<Rightarrow> DroneType \<Rightarrow> Drone" where
  "newDrone i x y t =
     \<lparr>id_d = i, x_d = x, y_d = y, vx = 0, vy = 0, type_d = t, target = None,
      health_d = (if t = TBomber then 150 else 100), isEngaging = False, trail = [],
      lastFired = 0, lostCoords = None, isJammed = False, jammingTargets = []\<rparr>"

subsection \<open>The two oracles\<close>

definition dateNow :: "Sim \<Rightarrow> int \<times> Sim" where
  "dateNow s = (clock s (reads s), s\<lparr>reads := Suc (reads s)\<rparr>)"

definition mathRandom :: "Sim \<Rightarrow> real \<times> Sim" where
  "mathRandom s = (random s (draws s), s\<lparr>draws := Suc (draws s)\<rparr>)"

definition addParticle :: "Particle \<Rightarrow> Sim \<Rightarrow> Sim" where
  "addParticle p s = s\<lparr>particles := particles s @ [p]\<rparr>"

subsection \<open>Access to the objects of the state\<close>

definition setFriendly :: "nat \<Rightarrow> (Drone \<Rightarrow> Drone) \<Rightarrow> Sim \<Rightarrow> Sim" where
  "setFriendly i f s = s\<lparr>friendlyDrones := (friendlyDrones s)[i := f (friendlyDrones s ! i)]\<rparr>"

definition setHostile :: "nat \<Rightarrow> (Drone \<Rightarrow> Drone) \<Rightarrow> Sim \<Rightarrow> Sim" where
  "setHostile j f s = s\<lparr>hostileDrones := (hostileDrones s)[j := f (hostileDrones s ! j)]\<rparr>"

definition setAsset :: "nat \<Rightarrow> (Asset \<Rightarrow> Asset) \<Rightarrow> Sim \<Rightarrow> Sim" where
  "setAsset k f s = s\<lparr>groundAssets := (groundAssets s)[k := f (groundAssets s ! k)]\<rparr>"

fun getDrone :: "Sim \<Rightarrow> DroneRef \<Rightarrow> Drone" where
  "getDrone s (Friendly i) = friendlyDrones s ! i"
| "getDrone s (Hostile j) = hostileDrones s ! j"

fun setDrone :: "DroneRef \<Rightarrow> (Drone \<Rightarrow> Drone) \<Rightarrow> Sim \<Rightarrow> Sim" where
  "setDrone (Friendly i) f s = setFriendly i f s"
| "setDrone (Hostile j) f s = setHostile j f s"

definition pos_d :: "Drone \<Rightarrow> real \<times> real" where
  "pos_d d = (x_d d, y_d d)"

definition pos_a :: "Asset \<Rightarrow> real \<times> real" where
  "pos_a a = (x_a a, y_a a)"

fun targetPos :: "Sim \<Rightarrow> TargetRef \<Rightarrow> real \<times> real" where
  "targetPos s (DroneT r) = pos_d (getDrone s r)"
| "targetPos s (AssetT k) = pos_a (groundAssets s ! k)"

fun targetHealth :: "Sim \<Rightarrow> TargetRef \<Rightarrow> real" where
  "targetHealth s (DroneT r) = health_d (getDrone s r)"
| "targetHealth s (AssetT k) = health_a (groundAssets s ! k)"

fun damageTarget :: "TargetRef \<Rightarrow> real \<Rightarrow> Sim \<Rightarrow> Sim" where
  "damageTarget (DroneT r) damage s = setDrone r (\<lambda>d. d\<lparr>health_d := health_d d - damage\<rparr>) s"
| "damageTarget (AssetT k) damage s = setAsset k (\<lambda>a. a\<lparr>health_a := health_a a - damage\<rparr>) s"

subsection \<open>\<open>calculateDistance\<close>, \<open>moveTo\<close>, \<open>fireAt\<close>\<close>

definition calculateDistance :: "Drone \<Rightarrow> real \<times> real \<Rightarrow> real" where
  "calculateDistance this other =
     (let dx = x_d this - fst other; dy = y_d this - snd other
      in sqrt (dx * dx + dy * dy))"

definition moveTo :: "real \<Rightarrow> real \<Rightarrow> real \<Rightarrow> Drone \<Rightarrow> Drone" where
  "moveTo tx ty speed this =
     (let dx = tx - x_d this; dy = ty - y_d this; dist = sqrt (dx * dx + dy * dy);
          d1 = (if dist > 1
                then this\<lparr>x_d := x_d this + dx / dist * speed,
                          y_d := y_d this + dy / dist * speed,
                          vx := dx / dist * speed, vy := dy / dist * speed\<rparr>
                else this);
          tr = (x_d d1, y_d d1) # trail d1
      in d1\<lparr>trail := (if length tr > 10 then butlast tr else tr)\<rparr>)"

text \<open>The particle of one iteration of the loop in \<open>fireAt\<close>: six draws, in field order.\<close>

definition hitParticle :: "real \<times> real \<Rightarrow> string \<Rightarrow> Sim \<Rightarrow> Sim" where
  "hitParticle tp c s =
     (let n = draws s; r = random s
      in addParticle
           \<lparr>x_p = fst tp + (r n - 1/2) * 10, y_p = snd tp + (r (n + 1) - 1/2) * 10,
            vx_p = (r (n + 2) - 1/2) * 4, vy_p = (r (n + 3) - 1/2) * 4,
            life = 10 + r (n + 4) * 10, maxLife = 20, color = c,
            size_p = 1 + r (n + 5) * 2\<rparr>
           (s\<lparr>draws := n + 6\<rparr>))"

definition fireAt :: "DroneRef \<Rightarrow> TargetRef \<Rightarrow> string \<Rightarrow> real \<Rightarrow> Sim \<Rightarrow> Sim" where
  "fireAt this tgt c damage s =
     (let (t1, s1) = dateNow s
      in if t1 - lastFired (getDrone s1 this) < 100 then s1
         else let (t2, s2) = dateNow s1;
                  s3 = setDrone this (\<lambda>d. d\<lparr>lastFired := t2\<rparr>) s2;
                  s4 = damageTarget tgt damage s3
              in hitParticle (targetPos s4 tgt) c (hitParticle (targetPos s4 tgt) c s4))"

subsection \<open>Searching a collection for the first best element\<close>

text \<open>
  The loops \<open>forEach(e => { if (v(e) < best) { best = v(e); arg = e } })\<close> with
  \<open>best = Infinity\<close> (or \<open>>\<close> and \<open>-Infinity\<close>): the comparison is strict, so the first
  best element in iteration order is kept.
\<close>

fun firstBest ::
  "(real \<Rightarrow> real \<Rightarrow> bool) \<Rightarrow> nat \<Rightarrow> real list \<Rightarrow> (nat \<times> real) option \<Rightarrow> (nat \<times> real) option"
where
  "firstBest better k [] best = best"
| "firstBest better k (v # vs) best =
     firstBest better (Suc k) vs
       (case best of None \<Rightarrow> Some (k, v)
        | Some (b, m) \<Rightarrow> if better v m then Some (k, v) else best)"

definition nearest :: "Drone \<Rightarrow> (real \<times> real) list \<Rightarrow> (nat \<times> real) option" where
  "nearest this ps = firstBest (<) 0 (map (calculateDistance this) ps) None"

text \<open>\<open>reduce\<close> without a start value, on a non-empty array (autonomous mode).\<close>

fun reduceNearest :: "Drone \<Rightarrow> real \<times> real \<Rightarrow> (real \<times> real) list \<Rightarrow> real \<times> real" where
  "reduceNearest this closest [] = closest"
| "reduceNearest this closest (p # ps) =
     reduceNearest this
       (if calculateDistance this p < calculateDistance this closest then p else closest) ps"

subsection \<open>Threat assessment\<close>

text \<open>
  A quotient of JavaScript numbers with divisor 0 is \<open>NaN\<close> or an infinity, never an
  exception; \<open>jsdiv\<close> returns \<open>None\<close> for it. It is used where the source divides
  without a test in the same function: the engagement ratio and the formation offsets.
  The other divisions stand under a test of their divisor (\<open>dist > 1\<close>, \<open>d > 0\<close>,
  \<open>length > 1\<close>, \<open>length === 0\<close>) and are written with the division of HOL.
\<close>

definition jsdiv :: "real \<Rightarrow> real \<Rightarrow> real option" where
  "jsdiv a b = (if b = 0 then None else Some (a / b))"

definition friendlyBombersExist :: "Drone list \<Rightarrow> bool" where
  "friendlyBombersExist fs = list_ex (\<lambda>d. type_d d = TBomber \<and> health_d d > 0) fs"

text \<open>Friends other than \<open>this\<close> (index \<open>i\<close>) whose \<open>target\<close> is the given hostile.\<close>

definition othersTargeting :: "nat \<Rightarrow> Drone \<Rightarrow> Drone list \<Rightarrow> nat" where
  "othersTargeting i hostile fs =
     length (filter (\<lambda>k. k \<noteq> i \<and> target (fs ! k) = Some (id_d hostile)) [0..<length fs])"

definition calculateThreatScore ::
  "nat \<Rightarrow> Drone \<Rightarrow> Asset list \<Rightarrow> Drone list \<Rightarrow> bool \<Rightarrow> real" where
  "calculateThreatScore i hostile assets fs hasCommunication =
     (let this = fs ! i;
          critical =
            (case nearest hostile (map pos_a assets) of
               None \<Rightarrow> 0
             | Some (k, minDist) \<Rightarrow>
                 if minDist \<le> THREATENING_RANGE
                 then 1000 + (if priority (assets ! k) = 0 then 5 else priority (assets ! k)) * 10
                 else 0);
          pref =
            (if type_d this = TDrone \<and> friendlyBombersExist fs
             then (if type_d hostile = TDrone then 2000 else - 500)
             else (if type_d hostile = TBomber then 500 else 0));
          distToSelf = calculateDistance this (pos_d hostile);
          engaged = (if hasCommunication then real (othersTargeting i hostile fs) * 30 else 0)
      in critical + pref + 100 + 50 / (distToSelf + 1) - engaged)"

definition isCriticalThreat :: "Drone \<Rightarrow> Asset list \<Rightarrow> bool" where
  "isCriticalThreat hostile assets =
     (case nearest hostile (map pos_a assets) of
        None \<Rightarrow> False
      | Some (k, minDist) \<Rightarrow> minDist \<le> THREATENING_RANGE)"

definition engagementRatio :: "nat \<Rightarrow> Drone \<Rightarrow> Drone list \<Rightarrow> real option" where
  "engagementRatio i tgt fs = jsdiv (real (othersTargeting i tgt fs)) (real (length fs))"

definition shouldEngage :: "nat \<Rightarrow> Drone \<Rightarrow> Drone list \<Rightarrow> bool" where
  "shouldEngage i tgt fs =
     (let myDistance = calculateDistance (fs ! i) (pos_d tgt)
      in myDistance < 200 \<or>
         (case engagementRatio i tgt fs of None \<Rightarrow> False | Some r \<Rightarrow> r < 3 / 10))"

subsection \<open>Formation slots\<close>

text \<open>The \<open>while\<close> loop of the spearhead case: row \<open>r\<close> and position in the row.\<close>

function spearheadRow :: "nat \<Rightarrow> nat \<Rightarrow> nat \<times> nat" where
  "spearheadRow remaining r =
     (if remaining \<ge> r + 1 then spearheadRow (remaining - (r + 1)) (r + 1) else (remaining, r))"
  by pat_completeness auto
termination
  by (relation "measure fst") auto

declare spearheadRow.simps [simp del]

text \<open>
  The \<open>switch\<close> of \<open>patrolPosition\<close>; \<open>index\<close> is the position of the drone in the
  roster and \<open>n\<close> the roster size. No case matches \<open>circle\<close>, which leaves both offsets 0.
\<close>

definition formationOffset :: "FormationType \<Rightarrow> nat \<Rightarrow> nat \<Rightarrow> (real \<times> real) option" where
  "formationOffset formation index n =
     (let spacing = 50
      in case formation of
           Circle \<Rightarrow> Some (0, 0)
         | Arrowhead \<Rightarrow>
             if index = 0 then Some (0, - spacing * (3 / 2))
             else (case jsdiv (real (index + 1)) 2 of
                     None \<Rightarrow> None
                   | Some q \<Rightarrow>
                       let row = of_int \<lfloor>q\<rfloor>; side = (if index mod 2 = 0 then 1 else - 1)
                       in Some (side * row * spacing, - spacing * (3 / 2) + row * spacing))
         | Spearhead \<Rightarrow>
             (let (remaining, r) = spearheadRow index 0; rowWidth = (real r + 1) * spacing
              in case (jsdiv (- rowWidth) 2, jsdiv spacing 2) of
                   (Some a, Some b) \<Rightarrow>
                     Some (a + b + real remaining * spacing, (real r - 3 / 2) * spacing)
                 | _ \<Rightarrow> None)
         | DoubleFile \<Rightarrow>
             (case (jsdiv (real index) 2, jsdiv (real n) 4) of
                (Some q, Some m) \<Rightarrow>
                  Some ((if index mod 2 = 0 then - 1 else 1) * spacing * (8 / 10),
                        (of_int \<lfloor>q\<rfloor> - m) * spacing)
              | _ \<Rightarrow> None)
         | ExtendedLine \<Rightarrow>
             (case jsdiv (real n) 2 of
                Some m \<Rightarrow> Some ((real index - m) * spacing, 0)
              | None \<Rightarrow> None))"

definition centerX :: "Asset list \<Rightarrow> real" where
  "centerX assets = sum_list (map x_a assets) / real (length assets)"

definition centerY :: "Asset list \<Rightarrow> real" where
  "centerY assets = sum_list (map y_a assets) / real (length assets)"

text \<open>\<open>Math.atan2(y, x)\<close> on reals, with value 0 at the origin.\<close>

definition atan2 :: "real \<Rightarrow> real \<Rightarrow> real" where
  "atan2 y x =
     (if x > 0 then arctan (y / x)
      else if x < 0 then (if y \<ge> 0 then arctan (y / x) + pi else arctan (y / x) - pi)
      else if y > 0 then pi / 2 else if y < 0 then - pi / 2 else 0)"

text \<open>
  The slot a patrolling drone steers to, for the formations other than \<open>circle\<close>:
  \<open>targetX\<close>, \<open>targetY\<close> of \<open>patrolPosition\<close>. \<open>None\<close> is one of its two early returns
  (no asset, or \<open>this\<close> not in the roster) or an offset that is not a finite number.
\<close>

definition patrolSlot :: "FormationType \<Rightarrow> nat \<Rightarrow> Sim \<Rightarrow> (real \<times> real) option" where
  "patrolSlot formation i s =
     (if groundAssets s = [] then None
      else if i \<ge> length (friendlyDrones s) then None
      else (case formationOffset formation i (length (friendlyDrones s)) of
              None \<Rightarrow> None
            | Some (targetOffsetX, targetOffsetY) \<Rightarrow>
                Some (centerX (groundAssets s) + targetOffsetX,
                      centerY (groundAssets s) + targetOffsetY)))"

definition sepStep ::
  "nat \<Rightarrow> Drone list \<Rightarrow> real \<Rightarrow> nat \<Rightarrow> real \<times> real \<times> nat \<Rightarrow> real \<times> real \<times> nat" where
  "sepStep i drones separationDist k acc =
     (let this = drones ! i; other = drones ! k; (sepX, sepY, count) = acc
      in if k \<noteq> i \<and> health_d other > 0
         then (let d = calculateDistance this (pos_d other)
               in if d < separationDist \<and> d > 0
                  then (let force = (separationDist - d) / separationDist
                        in (sepX + (x_d this - x_d other) / d * force,
                            sepY + (y_d this - y_d other) / d * force, Suc count))
                  else acc)
         else acc)"

definition applySeparation :: "nat \<Rightarrow> real \<Rightarrow> Sim \<Rightarrow> Sim" where
  "applySeparation i separationDist s =
     (let drones = friendlyDrones s;
          (sepX, sepY, count) = fold (sepStep i drones separationDist) [0..<length drones] (0, 0, 0)
      in if count > 0
         then setFriendly i (\<lambda>d. d\<lparr>x_d := x_d d + sepX * (3 / 2), y_d := y_d d + sepY * (3 / 2)\<rparr>) s
         else s)"

definition patrolPosition :: "nat \<Rightarrow> FormationType \<Rightarrow> Sim \<Rightarrow> Sim" where
  "patrolPosition i formation s =
     (if groundAssets s = [] then s
      else if i \<ge> length (friendlyDrones s) then s
      else (let cx = centerX (groundAssets s); cy = centerY (groundAssets s);
                this = friendlyDrones s ! i;
                s1 = (if formation = Circle
                      then (let angle = atan2 (y_d this - cy) (x_d this - cx);
                                orbitRadius = 120;
                                targetX = cx + cos (angle + 2 / 100) * orbitRadius;
                                targetY = cy + sin (angle + 2 / 100) * orbitRadius
                            in setFriendly i (moveTo targetX targetY (DRONE_SPEED * (3 / 10))) s)
                      else (case patrolSlot formation i s of
                              None \<Rightarrow> s
                            | Some (targetX, targetY) \<Rightarrow>
                                let distToSlot = sqrt ((targetX - x_d this)\<^sup>2 + (targetY - y_d this)\<^sup>2)
                                in if distToSlot > 5
                                   then setFriendly i (moveTo targetX targetY (DRONE_SPEED * (1 / 2))) s
                                   else s))
            in applySeparation i 40 s1))"

definition maintainDefensivePosition :: "nat \<Rightarrow> Sim \<Rightarrow> Sim" where
  "maintainDefensivePosition i s =
     (if groundAssets s = [] then s
      else (let cx = centerX (groundAssets s); cy = centerY (groundAssets s);
                this = friendlyDrones s ! i;
                dist = sqrt ((x_d this - cx)\<^sup>2 + (y_d this - cy)\<^sup>2)
            in if dist > 100 then setFriendly i (moveTo cx cy (DRONE_SPEED * (1 / 2))) s else s))"

subsection \<open>\<open>update\<close>: the friendly logic\<close>

text \<open>Autonomous mode, entered when \<open>hasCommunication\<close> is false.\<close>

definition autonomousMode :: "nat \<Rightarrow> Sim \<Rightarrow> Sim" where
  "autonomousMode i s =
     (let (r, s1) = mathRandom s; groundThreat = (r < 7 / 10); this = friendlyDrones s1 ! i
      in if groundThreat \<and> groundAssets s1 \<noteq> []
         then (let nearestAsset =
                     reduceNearest this (pos_a (hd (groundAssets s1))) (map pos_a (tl (groundAssets s1)))
               in setFriendly i (moveTo (fst nearestAsset) (snd nearestAsset) DRONE_SPEED) s1)
         else if hostileDrones s1 \<noteq> []
         then (let nearestHostile =
                     reduceNearest this (pos_d (hd (hostileDrones s1))) (map pos_d (tl (hostileDrones s1)))
               in setFriendly i (moveTo (fst nearestHostile) (snd nearestHostile) DRONE_SPEED) s1)
         else (let (rx, s2) = mathRandom s1;
                   s3 = setFriendly i (\<lambda>d. d\<lparr>x_d := x_d d + (rx - 1 / 2)\<rparr>) s2;
                   (ry, s4) = mathRandom s3
               in setFriendly i (\<lambda>d. d\<lparr>y_d := y_d d + (ry - 1 / 2)\<rparr>) s4))"

text \<open>
  The reconnection loop over the roster. The pair carries the state and the local
  variable \<open>performingRescue\<close>.
\<close>

definition rescueStep :: "nat \<Rightarrow> nat \<Rightarrow> Sim \<times> bool \<Rightarrow> Sim \<times> bool" where
  "rescueStep i k sp =
     (let (s, performingRescue) = sp; friend = friendlyDrones s ! k
      in if k \<noteq> i
         then (case lostCoords friend of
                 None \<Rightarrow> sp
               | Some lc \<Rightarrow>
                   if calculateDistance (friendlyDrones s ! i) (pos_d friend) < 100
                   then (setFriendly k (\<lambda>d. d\<lparr>lostCoords := None\<rparr>) s, performingRescue)
                   else if \<not> performingRescue
                   then (setFriendly i (moveTo (fst lc) (snd lc) (DRONE_SPEED * (8 / 10))) s, True)
                   else sp)
         else sp)"

definition rescueLoop :: "nat \<Rightarrow> Sim \<Rightarrow> Sim \<times> bool" where
  "rescueLoop i s = fold (rescueStep i) [0..<length (friendlyDrones s)] (s, False)"

definition markLost :: "nat \<Rightarrow> Sim \<Rightarrow> Sim" where
  "markLost i s =
     (let fs = friendlyDrones s
      in if length fs > 1
         then (let avgX = sum_list (map x_d fs) / real (length fs);
                   avgY = sum_list (map y_d fs) / real (length fs)
               in if calculateDistance (fs ! i) (avgX, avgY) > 300 \<and> lostCoords (fs ! i) = None
                  then setFriendly i (\<lambda>d. d\<lparr>lostCoords := Some (x_d d, y_d d)\<rparr>) s
                  else s)
         else s)"

text \<open>
  The jamming loop over the hostiles (one draw, and four more for a particle). The
  subtraction of 0.1 is the one of the reals; the doubles of the source round it.
\<close>

definition jamParticle :: "real \<times> real \<Rightarrow> Sim \<Rightarrow> Sim" where
  "jamParticle hp s =
     (let n = draws s; r = random s
      in addParticle
           \<lparr>x_p = fst hp + (r n - 1/2) * 10, y_p = snd hp + (r (n + 1) - 1/2) * 10,
            vx_p = (r (n + 2) - 1/2) * 2, vy_p = (r (n + 3) - 1/2) * 2,
            life = 10, maxLife = 10, color = ''#a855f7'', size_p = 3 / 2\<rparr>
           (s\<lparr>draws := n + 4\<rparr>))"

definition jamStep :: "nat \<Rightarrow> nat \<Rightarrow> Sim \<Rightarrow> Sim" where
  "jamStep i j s =
     (let h = hostileDrones s ! j
      in if health_d h > 0 \<and> calculateDistance (friendlyDrones s ! i) (pos_d h) \<le> JAMMING_RANGE
         then (let s1 = setHostile j (\<lambda>d. d\<lparr>isJammed := True\<rparr>) s;
                   s2 = setFriendly i (\<lambda>d. d\<lparr>jammingTargets := jammingTargets d @ [id_d h]\<rparr>) s1;
                   s3 = setHostile j (\<lambda>d. d\<lparr>health_d := health_d d - 1 / 10\<rparr>) s2;
                   (r, s4) = mathRandom s3
               in if r < 1 / 10 then jamParticle (pos_d h) s4 else s4)
         else s)"

definition jamming :: "nat \<Rightarrow> Sim \<Rightarrow> Sim" where
  "jamming i s = fold (jamStep i) [0..<length (hostileDrones s)] s"

text \<open>
  The decision logic: selection of the target, then engagement (\<open>engage\<close>: the block
  under \<open>isCritical || shouldEngage\<close>), defence or patrol.
\<close>

definition selectTarget :: "nat \<Rightarrow> bool \<Rightarrow> Sim \<Rightarrow> (nat \<times> real) option" where
  "selectTarget i hasCommunication s =
     firstBest (>) 0
       (map (\<lambda>hostile. calculateThreatScore i hostile (groundAssets s) (friendlyDrones s)
                          hasCommunication)
            (hostileDrones s))
       None"

definition engage :: "nat \<Rightarrow> nat \<Rightarrow> Sim \<Rightarrow> Sim" where
  "engage i j s =
     (let this = friendlyDrones s ! i; highestPriorityTarget = hostileDrones s ! j;
          dist = calculateDistance this (pos_d highestPriorityTarget)
      in if dist \<le> FIRING_RANGE
         then fireAt (Friendly i) (DroneT (Hostile j)) ''#fbbf24''
                (if type_d this = TBomber then 20 else 2) s
         else setFriendly i
                (moveTo (x_d highestPriorityTarget) (y_d highestPriorityTarget) DRONE_SPEED) s)"

definition decide :: "nat \<Rightarrow> bool \<Rightarrow> FormationType \<Rightarrow> Sim \<Rightarrow> Sim" where
  "decide i hasCommunication formation s =
     (case selectTarget i hasCommunication s of
        Some (j, highestThreatLevel) \<Rightarrow>
          (let highestPriorityTarget = hostileDrones s ! j;
               s1 = setFriendly i
                      (\<lambda>d. d\<lparr>target := Some (id_d highestPriorityTarget), isEngaging := True\<rparr>) s;
               isCritical = isCriticalThreat highestPriorityTarget (groundAssets s1)
           in if isCritical \<or> shouldEngage i highestPriorityTarget (friendlyDrones s1)
              then engage i j s1
              else maintainDefensivePosition i s1)
      | None \<Rightarrow>
          patrolPosition i formation
            (setFriendly i (\<lambda>d. d\<lparr>target := None, isEngaging := False\<rparr>) s))"

definition updateFriendly :: "nat \<Rightarrow> bool \<Rightarrow> bool \<Rightarrow> FormationType \<Rightarrow> Sim \<Rightarrow> Sim" where
  "updateFriendly i hasCommunication jammingEnabled formation s =
     (let s0 = setFriendly i (\<lambda>d. d\<lparr>jammingTargets := []\<rparr>) s
      in if \<not> hasCommunication then autonomousMode i s0
         else (let (s1, performingRescue) = rescueLoop i s0; s2 = markLost i s1
               in if performingRescue then s2
                  else decide i hasCommunication formation
                         (if jammingEnabled then jamming i s2 else s2)))"

subsection \<open>\<open>update\<close>: the hostile logic\<close>

text \<open>
  \<open>currentSpeed\<close>, then the two commented blocks of the hostile branch, \<open>Combat Logic\<close>
  and \<open>Movement Logic\<close>. Both blocks use the nearest asset and the nearest friendly
  found before them, each with its distance (\<open>None\<close>: the collection is empty). The
  products of \<open>currentSpeed\<close> are those of the reals: the jammed speed of an
  interceptor is 0.3 here, where the doubles of the source give 0.30000000000000004.
\<close>

definition currentSpeed :: "Drone \<Rightarrow> real" where
  "currentSpeed this =
     (if isJammed this
      then (if type_d this = TBomber then BOMBER_SPEED else HOSTILE_SPEED) * (2 / 10)
      else (if type_d this = TBomber then BOMBER_SPEED else HOSTILE_SPEED))"

definition combatLogic ::
  "nat \<Rightarrow> real \<Rightarrow> (nat \<times> real) option \<Rightarrow> (nat \<times> real) option \<Rightarrow> Sim \<Rightarrow> Sim" where
  "combatLogic j speed nearestAsset nearestFriendly s =
     (let this = hostileDrones s ! j;
          selfDefense = (case nearestFriendly of None \<Rightarrow> False
                         | Some (f, minFriendlyDist) \<Rightarrow> minFriendlyDist \<le> FIRING_RANGE);
          objective = (case nearestAsset of None \<Rightarrow> False
                       | Some (k, minAssetDist) \<Rightarrow> minAssetDist \<le> FIRING_RANGE);
          pursuit = (case nearestFriendly of None \<Rightarrow> False
                     | Some (f, minFriendlyDist) \<Rightarrow> minFriendlyDist \<le> FIRING_RANGE * (15 / 10))
      in if selfDefense
         then (case nearestFriendly of None \<Rightarrow> s
               | Some (f, minFriendlyDist) \<Rightarrow>
                   fireAt (Hostile j) (DroneT (Friendly f)) ''#ef4444''
                     (if type_d this = TBomber then 15 else 15 / 10) s)
         else if objective
         then (case nearestAsset of None \<Rightarrow> s
               | Some (k, minAssetDist) \<Rightarrow>
                   fireAt (Hostile j) (AssetT k) ''#f97316''
                     (if type_d this = TBomber then 50 else 5) s)
         else if pursuit
         then (case nearestFriendly of None \<Rightarrow> s
               | Some (f, minFriendlyDist) \<Rightarrow>
                   setHostile j
                     (moveTo (x_d (friendlyDrones s ! f)) (y_d (friendlyDrones s ! f)) speed) s)
         else s)"

definition movementLogic ::
  "nat \<Rightarrow> real \<Rightarrow> (nat \<times> real) option \<Rightarrow> (nat \<times> real) option \<Rightarrow> Sim \<Rightarrow> Sim" where
  "movementLogic j speed nearestAsset nearestFriendly s =
     (case nearestAsset of
        Some (k, minAssetDist) \<Rightarrow>
          if minAssetDist > FIRING_RANGE * (8 / 10)
          then setHostile j
                 (moveTo (x_a (groundAssets s ! k)) (y_a (groundAssets s ! k)) speed) s
          else s
      | None \<Rightarrow>
          (case nearestFriendly of
             Some (f, minFriendlyDist) \<Rightarrow>
               setHostile j
                 (moveTo (x_d (friendlyDrones s ! f)) (y_d (friendlyDrones s ! f)) speed) s
           | None \<Rightarrow> s))"

definition updateHostile :: "nat \<Rightarrow> Sim \<Rightarrow> Sim" where
  "updateHostile j s =
     (let s0 = setHostile j (\<lambda>d. d\<lparr>jammingTargets := []\<rparr>) s;
          this = hostileDrones s0 ! j;
          speed = currentSpeed this;
          nearestAsset = nearest this (map pos_a (groundAssets s0));
          nearestFriendly = nearest this (map pos_d (friendlyDrones s0));
          s1 = (if \<not> isJammed this
                then combatLogic j speed nearestAsset nearestFriendly s0
                else s0)
      in movementLogic j speed nearestAsset nearestFriendly s1)"

fun update :: "DroneRef \<Rightarrow> bool \<Rightarrow> bool \<Rightarrow> FormationType \<Rightarrow> Sim \<Rightarrow> Sim" where
  "update (Friendly i) hasCommunication jammingEnabled formation s =
     updateFriendly i hasCommunication jammingEnabled formation s"
| "update (Hostile j) hasCommunication jammingEnabled formation s = updateHostile j s"

subsection \<open>\<open>updateSimulation\<close>: one tick\<close>

definition explosionParticle :: "real \<Rightarrow> real \<Rightarrow> string \<Rightarrow> real \<Rightarrow> Sim \<Rightarrow> Sim" where
  "explosionParticle x y c scale s =
     (let n = draws s; r = random s
      in addParticle
           \<lparr>x_p = x, y_p = y, vx_p = (r n - 1/2) * 8 * scale, vy_p = (r (n + 1) - 1/2) * 8 * scale,
            life = 20 + r (n + 2) * 20, maxLife = 40, color = c,
            size_p = (2 + r (n + 3) * 4) * scale\<rparr>
           (s\<lparr>draws := n + 4\<rparr>))"

definition createExplosion :: "real \<Rightarrow> real \<Rightarrow> string \<Rightarrow> real \<Rightarrow> Sim \<Rightarrow> Sim" where
  "createExplosion x y c scale s = (explosionParticle x y c scale ^^ nat \<lceil>20 * scale\<rceil>) s"

definition ageParticles :: "Sim \<Rightarrow> Sim" where
  "ageParticles s =
     s\<lparr>particles :=
         filter (\<lambda>p. \<not> life p \<le> 0)
           (map (\<lambda>p. p\<lparr>x_p := x_p p + vx_p p, y_p := y_p p + vy_p p, life := life p - 1,
                        size_p := size_p p * (95 / 100)\<rparr>)
                (particles s))\<rparr>"

definition clearJammed :: "Sim \<Rightarrow> Sim" where
  "clearJammed s = s\<lparr>hostileDrones := map (\<lambda>h. h\<lparr>isJammed := False\<rparr>) (hostileDrones s)\<rparr>"

definition friendlyPass :: "bool \<Rightarrow> bool \<Rightarrow> FormationType \<Rightarrow> Sim \<Rightarrow> Sim" where
  "friendlyPass hasCommunication jammingEnabled formation s =
     fold (\<lambda>i. update (Friendly i) hasCommunication jammingEnabled formation)
          [0..<length (friendlyDrones s)] s"

definition hostileStep :: "bool \<Rightarrow> bool \<Rightarrow> FormationType \<Rightarrow> nat \<Rightarrow> Sim \<Rightarrow> Sim" where
  "hostileStep hasCommunication jammingEnabled formation j s =
     (if health_d (hostileDrones s ! j) > 0
      then update (Hostile j) hasCommunication jammingEnabled formation s
      else s)"

definition hostilePass :: "bool \<Rightarrow> bool \<Rightarrow> FormationType \<Rightarrow> Sim \<Rightarrow> Sim" where
  "hostilePass hasCommunication jammingEnabled formation s =
     fold (hostileStep hasCommunication jammingEnabled formation)
          [0..<length (hostileDrones s)] s"

text \<open>The three casualty partitions, in the order of the source.\<close>

definition deadFriendlies :: "Sim \<Rightarrow> Sim" where
  "deadFriendlies s =
     (let dead = filter (\<lambda>d. \<not> health_d d > 0) (friendlyDrones s);
          s1 = fold (\<lambda>d. createExplosion (x_d d) (y_d d) ''#3b82f6'' 1) dead s
      in s1\<lparr>friendlyDrones := filter (\<lambda>d. health_d d > 0) (friendlyDrones s),
            friendlyLosses := friendlyLosses s + length dead\<rparr>)"

definition deadAssets :: "Sim \<Rightarrow> Sim" where
  "deadAssets s =
     (let dead = filter (\<lambda>a. \<not> health_a a > 0) (groundAssets s);
          s1 = fold (\<lambda>a. createExplosion (x_a a) (y_a a) ''#f59e0b'' (5 / 2)) dead s
      in s1\<lparr>groundAssets := filter (\<lambda>a. health_a a > 0) (groundAssets s),
            destroyedAssets := destroyedAssets s @ dead\<rparr>)"

definition deadHostiles :: "Sim \<Rightarrow> Sim" where
  "deadHostiles s =
     (let dead = filter (\<lambda>d. \<not> health_d d > 0) (hostileDrones s);
          s1 = fold (\<lambda>d. createExplosion (x_d d) (y_d d) ''#f97316'' 1) dead s
      in s1\<lparr>hostileDrones := filter (\<lambda>d. health_d d > 0) (hostileDrones s)\<rparr>)"

text \<open>
  The state before the partitions, and the whole tick. The statistics published to the
  user interface and the drawing that follow in the source read the state only; they
  are not part of the model, and neither are the calls of \<open>Date.now()\<close> and
  \<open>Math.random()\<close> that the throttle of the statistics and the drawing make: \<open>reads\<close>
  and \<open>draws\<close> count the calls of the engine only.
\<close>

definition updatePhase :: "bool \<Rightarrow> bool \<Rightarrow> FormationType \<Rightarrow> Sim \<Rightarrow> Sim" where
  "updatePhase hasCommunication jammingEnabled formation s =
     hostilePass hasCommunication jammingEnabled formation
       (friendlyPass hasCommunication jammingEnabled formation (clearJammed (ageParticles s)))"

definition updateSimulation :: "bool \<Rightarrow> bool \<Rightarrow> FormationType \<Rightarrow> Sim \<Rightarrow> Sim" where
  "updateSimulation hasCommunication jammingEnabled formation s =
     deadHostiles (deadAssets (deadFriendlies
       (updatePhase hasCommunication jammingEnabled formation s)))"

subsection \<open>Concrete states used below\<close>

text \<open>\<open>validRef\<close>: the reference denotes an element of its collection.\<close>

fun validRef :: "Sim \<Rightarrow> DroneRef \<Rightarrow> bool" where
  "validRef s (Friendly i) = (i < length (friendlyDrones s))"
| "validRef s (Hostile j) = (j < length (hostileDrones s))"


definition commandCenter :: Asset where
  "commandCenter =
     \<lparr>x_a = 400, y_a = 300, size_a = 30, type_a = ''command'', label = ''Command Center'',
      priority = 10, health_a = 3000, maxHealth = 3000\<rparr>"

definition emptySim :: Sim where
  "emptySim =
     \<lparr>friendlyDrones = [], hostileDrones = [], groundAssets = [], destroyedAssets = [],
      particles = [], friendlyLosses = 0, clock = (\<lambda>n. 1000), reads = 0,
      random = (\<lambda>n. 1 / 2), draws = 0\<rparr>"

text \<open>Four interceptors and the command centre of the map \<open>base\<close>.\<close>

definition lineSim :: Sim where
  "lineSim =
     emptySim\<lparr>friendlyDrones :=
                 [newDrone ''F-1'' 0 0 TDrone, newDrone ''F-2'' 0 0 TDrone,
                  newDrone ''F-3'' 0 0 TDrone, newDrone ''F-4'' 0 0 TDrone],
               groundAssets := [commandCenter]\<rparr>"

text \<open>A friendly that fired 50 ms before the next clock reading, and a hostile in range.\<close>

definition cooldownSim :: Sim where
  "cooldownSim =
     emptySim\<lparr>friendlyDrones := [(newDrone ''F-1'' 0 0 TDrone)\<lparr>lastFired := 950\<rparr>],
               hostileDrones := [newDrone ''H-1'' 30 0 TDrone]\<rparr>"

text \<open>
  A hostile interceptor with a friendly 30 away and an asset 40 away: both within
  \<open>FIRING_RANGE\<close>.
\<close>

definition duelSim :: Sim where
  "duelSim =
     emptySim\<lparr>friendlyDrones := [newDrone ''F-1'' 30 0 TDrone],
               hostileDrones := [newDrone ''H-1'' 0 0 TDrone],
               groundAssets := [commandCenter\<lparr>x_a := 0, y_a := 40\<rparr>]\<rparr>"

text \<open>
  The third branch of the combat logic (move towards the nearest friendly) is the one
  a hostile takes when it is not jammed: the conditions of the first two branches fail
  and its own holds.
\<close>

definition pursuesFriendly :: "nat \<Rightarrow> Sim \<Rightarrow> bool" where
  "pursuesFriendly j s =
     (let this = hostileDrones s ! j
      in (case nearest this (map pos_d (friendlyDrones s)) of
            None \<Rightarrow> False
          | Some (f, minFriendlyDist) \<Rightarrow>
              \<not> minFriendlyDist \<le> FIRING_RANGE
              \<and> \<not> (case nearest this (map pos_a (groundAssets s)) of
                      None \<Rightarrow> False
                    | Some (k, minAssetDist) \<Rightarrow> minAssetDist \<le> FIRING_RANGE)
              \<and> minFriendlyDist \<le> FIRING_RANGE * (15 / 10)))"

text \<open>
  A jammed hostile interceptor with a friendly 60 away and no asset; and one with a
  friendly 30 away and an asset 100 away.
\<close>

definition pursuitSim :: Sim where
  "pursuitSim =
     emptySim\<lparr>friendlyDrones := [newDrone ''F-1'' 60 0 TDrone],
               hostileDrones := [(newDrone ''H-1'' 0 0 TDrone)\<lparr>isJammed := True\<rparr>]\<rparr>"

definition jammedSim :: Sim where
  "jammedSim =
     emptySim\<lparr>friendlyDrones := [newDrone ''F-1'' 30 0 TDrone],
               hostileDrones := [(newDrone ''H-1'' 0 0 TDrone)\<lparr>isJammed := True\<rparr>],
               groundAssets := [commandCenter\<lparr>x_a := 0, y_a := 100\<rparr>]\<rparr>"

subsection \<open>Vocabulary of the proofs\<close>

text \<open>
  A projection \<open>g\<close> of a drone ignores a field when updating the field does not change
  \<open>g\<close>; \<open>ignoresMotion\<close> collects the fields written by \<open>moveTo\<close>, \<open>friendlyStable\<close>
  and \<open>hostileStable\<close> the fields a drone's own update writes in the friendly and in the
  hostile collection. \<open>nonInc\<close> compares two lists of health values position by position.
  \<open>performsRescue\<close> is the final value of the local variable \<open>performingRescue\<close>, and
  \<open>beforeDecision\<close> the state in which the decision logic of a friendly starts when no
  rescue move was made.
\<close>

definition ignores :: "(('a \<Rightarrow> 'a) \<Rightarrow> Drone \<Rightarrow> Drone) \<Rightarrow> (Drone \<Rightarrow> 'b) \<Rightarrow> bool" where
  "ignores upd g \<longleftrightarrow> (\<forall>f d. g (upd f d) = g d)"

definition ignoresMotion :: "(Drone \<Rightarrow> 'b) \<Rightarrow> bool" where
  "ignoresMotion g \<longleftrightarrow>
     ignores x_d_update g \<and> ignores y_d_update g \<and> ignores vx_update g \<and> ignores vy_update g
     \<and> ignores trail_update g"

definition nonInc :: "real list \<Rightarrow> real list \<Rightarrow> bool" where
  "nonInc xs ys \<longleftrightarrow> list_all2 (\<lambda>a b. b \<le> a) xs ys"

definition friendlyStable :: "(Drone \<Rightarrow> 'b) \<Rightarrow> bool" where
  "friendlyStable g \<longleftrightarrow>
     ignoresMotion g \<and> ignores lostCoords_update g \<and> ignores jammingTargets_update g
     \<and> ignores target_update g \<and> ignores isEngaging_update g \<and> ignores lastFired_update g"

definition hostileStable :: "(Drone \<Rightarrow> 'b) \<Rightarrow> bool" where
  "hostileStable g \<longleftrightarrow>
     ignoresMotion g \<and> ignores jammingTargets_update g \<and> ignores lastFired_update g"

text \<open>What the decision logic writes into the deciding drone before it moves or fires.\<close>

definition chosen :: "nat \<Rightarrow> bool \<Rightarrow> Sim \<Rightarrow> Drone \<Rightarrow> Drone" where
  "chosen i hc s =
     (case selectTarget i hc s of
        None \<Rightarrow> (\<lambda>d. d\<lparr>target := None, isEngaging := False\<rparr>)
      | Some (j, v) \<Rightarrow>
          (\<lambda>d. d\<lparr>target := Some (id_d (hostileDrones s ! j)), isEngaging := True\<rparr>))"

definition performsRescue :: "nat \<Rightarrow> Sim \<Rightarrow> bool" where
  "performsRescue i s = snd (rescueLoop i (setFriendly i (\<lambda>d. d\<lparr>jammingTargets := []\<rparr>) s))"

definition beforeDecision :: "nat \<Rightarrow> bool \<Rightarrow> Sim \<Rightarrow> Sim" where
  "beforeDecision i jammingEnabled s =
     (let s2 = markLost i (fst (rescueLoop i (setFriendly i (\<lambda>d. d\<lparr>jammingTargets := []\<rparr>) s)))
      in if jammingEnabled then jamming i s2 else s2)"

text \<open>
  Further concrete states: a hostile 60 away from the only friendly; a hostile with
  2 health points left, 30 away from the only friendly.
\<close>

definition jamRangeSim :: Sim where
  "jamRangeSim =
     emptySim\<lparr>friendlyDrones := [newDrone ''F-1'' 0 0 TDrone],
               hostileDrones := [newDrone ''H-1'' 60 0 TDrone]\<rparr>"

definition staleSim :: Sim where
  "staleSim =
     emptySim\<lparr>friendlyDrones := [newDrone ''F-1'' 0 0 TDrone],
               hostileDrones := [(newDrone ''H-1'' 30 0 TDrone)\<lparr>health_d := 2\<rparr>]\<rparr>"

text \<open>
  Ten interceptors in a row, one hostile within firing range of all of them and an
  asset 970 away from it; two friendlies with a hostile half way between them, 60 away
  from each; a hostile whose health has reached 0.
\<close>

definition tenSim :: Sim where
  "tenSim =
     emptySim\<lparr>friendlyDrones :=
                 [newDrone ''F-1'' 0 0 TDrone, newDrone ''F-2'' 1 0 TDrone,
                  newDrone ''F-3'' 2 0 TDrone, newDrone ''F-4'' 3 0 TDrone,
                  newDrone ''F-5'' 4 0 TDrone, newDrone ''F-6'' 5 0 TDrone,
                  newDrone ''F-7'' 6 0 TDrone, newDrone ''F-8'' 7 0 TDrone,
                  newDrone ''F-9'' 8 0 TDrone, newDrone ''F-10'' 9 0 TDrone],
               hostileDrones := [newDrone ''H-1'' 30 0 TDrone],
               groundAssets := [commandCenter\<lparr>x_a := 1000, y_a := 0\<rparr>]\<rparr>"

definition pairSim :: Sim where
  "pairSim =
     emptySim\<lparr>friendlyDrones := [newDrone ''F-1'' 0 0 TDrone, newDrone ''F-2'' 120 0 TDrone],
               hostileDrones := [newDrone ''H-1'' 60 0 TDrone]\<rparr>"

definition deadSim :: Sim where
  "deadSim =
     emptySim\<lparr>friendlyDrones := [newDrone ''F-1'' 0 0 TDrone],
               hostileDrones := [(newDrone ''H-1'' 30 0 TDrone)\<lparr>health_d := 0\<rparr>]\<rparr>"

text \<open>
  \<open>validTarget\<close>: the target reference denotes an element of its collection. Four
  interceptors on a line through an asset at (100, 0). A friendly that has never fired,
  with a clock that advances by 1 ms at every reading. The terms of the threat score
  other than the type preference: critical-asset term, base 100, distance term and
  engagement penalty. Two interceptors on a line with a hostile, 60 and 68 away.
\<close>

fun validTarget :: "Sim \<Rightarrow> TargetRef \<Rightarrow> bool" where
  "validTarget s (DroneT r) = validRef s r"
| "validTarget s (AssetT k) = (k < length (groundAssets s))"

definition patrolSim :: Sim where
  "patrolSim =
     emptySim\<lparr>friendlyDrones :=
                 [newDrone ''F-1'' (- 30) 0 TDrone, newDrone ''F-2'' 50 0 TDrone,
                  newDrone ''F-3'' 100 0 TDrone, newDrone ''F-4'' 180 0 TDrone],
               groundAssets := [commandCenter\<lparr>x_a := 100, y_a := 0\<rparr>]\<rparr>"

definition rapidSim :: Sim where
  "rapidSim =
     emptySim\<lparr>friendlyDrones := [newDrone ''F-1'' 0 0 TDrone],
               hostileDrones := [newDrone ''H-1'' 30 0 TDrone],
               clock := (\<lambda>n. 1000 + int n)\<rparr>"

definition baseScore :: "nat \<Rightarrow> Drone \<Rightarrow> Asset list \<Rightarrow> Drone list \<Rightarrow> bool \<Rightarrow> real" where
  "baseScore i hostile assets fs hasCommunication =
     (case nearest hostile (map pos_a assets) of
        None \<Rightarrow> 0
      | Some (k, minDist) \<Rightarrow>
          if minDist \<le> THREATENING_RANGE
          then 1000 + (if priority (assets ! k) = 0 then 5 else priority (assets ! k)) * 10
          else 0)
     + 100 + 50 / (calculateDistance (fs ! i) (pos_d hostile) + 1)
     - (if hasCommunication then real (othersTargeting i hostile fs) * 30 else 0)"


text \<open>
  \<open>turnState\<close>: the state of a tick in which the update of the friendly at index \<open>i\<close>
  is invoked, after the updates of the friendlies before it. \<open>jams\<close>: in that tick the
  friendly at index \<open>i\<close> reaches its jamming loop (communication and jamming are on and
  it makes no rescue move) with the hostile at index \<open>k\<close> within \<open>JAMMING_RANGE\<close>;
  \<open>jammers\<close> lists those friendlies.
\<close>

definition turnState :: "nat \<Rightarrow> bool \<Rightarrow> bool \<Rightarrow> FormationType \<Rightarrow> Sim \<Rightarrow> Sim" where
  "turnState i c jm fm s =
     fold (\<lambda>k. update (Friendly k) c jm fm) [0..<i] (clearJammed (ageParticles s))"

definition jams :: "nat \<Rightarrow> bool \<Rightarrow> bool \<Rightarrow> FormationType \<Rightarrow> Sim \<Rightarrow> nat \<Rightarrow> bool" where
  "jams k c jm fm s i \<longleftrightarrow>
     c \<and> jm \<and> \<not> performsRescue i (turnState i c jm fm s)
     \<and> calculateDistance (friendlyDrones s ! i) (pos_d (hostileDrones s ! k)) \<le> JAMMING_RANGE"

definition jammers :: "nat \<Rightarrow> bool \<Rightarrow> bool \<Rightarrow> FormationType \<Rightarrow> Sim \<Rightarrow> nat list" where
  "jammers k c jm fm s = filter (jams k c jm fm s) [0..<length (friendlyDrones s)]"

section \<open>Properties\<close>

subsection \<open>Projections of the state after the primitive operations\<close>

lemma setFriendly_proj [simp]:
  "friendlyDrones (setFriendly i f s) = (friendlyDrones s)[i := f (friendlyDrones s ! i)]"
  "hostileDrones (setFriendly i f s) = hostileDrones s"
  "groundAssets (setFriendly i f s) = groundAssets s"
  "destroyedAssets (setFriendly i f s) = destroyedAssets s"
  "particles (setFriendly i f s) = particles s"
  "friendlyLosses (setFriendly i f s) = friendlyLosses s"
  "clock (setFriendly i f s) = clock s"
  "reads (setFriendly i f s) = reads s"
  "random (setFriendly i f s) = random s"
  "draws (setFriendly i f s) = draws s"
  by (simp_all add: setFriendly_def)

lemma setHostile_proj [simp]:
  "friendlyDrones (setHostile i f s) = friendlyDrones s"
  "hostileDrones (setHostile i f s) = (hostileDrones s)[i := f (hostileDrones s ! i)]"
  "groundAssets (setHostile i f s) = groundAssets s"
  "destroyedAssets (setHostile i f s) = destroyedAssets s"
  "particles (setHostile i f s) = particles s"
  "friendlyLosses (setHostile i f s) = friendlyLosses s"
  "clock (setHostile i f s) = clock s"
  "reads (setHostile i f s) = reads s"
  "random (setHostile i f s) = random s"
  "draws (setHostile i f s) = draws s"
  by (simp_all add: setHostile_def)

lemma setAsset_proj [simp]:
  "friendlyDrones (setAsset i f s) = friendlyDrones s"
  "hostileDrones (setAsset i f s) = hostileDrones s"
  "groundAssets (setAsset i f s) = (groundAssets s)[i := f (groundAssets s ! i)]"
  "destroyedAssets (setAsset i f s) = destroyedAssets s"
  "particles (setAsset i f s) = particles s"
  "friendlyLosses (setAsset i f s) = friendlyLosses s"
  "clock (setAsset i f s) = clock s"
  "reads (setAsset i f s) = reads s"
  "random (setAsset i f s) = random s"
  "draws (setAsset i f s) = draws s"
  by (simp_all add: setAsset_def)

lemma addParticle_proj [simp]:
  "friendlyDrones (addParticle p s) = friendlyDrones s"
  "hostileDrones (addParticle p s) = hostileDrones s"
  "groundAssets (addParticle p s) = groundAssets s"
  "destroyedAssets (addParticle p s) = destroyedAssets s"
  "particles (addParticle p s) = particles s @ [p]"
  "friendlyLosses (addParticle p s) = friendlyLosses s"
  "clock (addParticle p s) = clock s"
  "reads (addParticle p s) = reads s"
  "random (addParticle p s) = random s"
  "draws (addParticle p s) = draws s"
  by (simp_all add: addParticle_def)

lemma hitParticle_proj [simp]:
  "friendlyDrones (hitParticle tp c s) = friendlyDrones s"
  "hostileDrones (hitParticle tp c s) = hostileDrones s"
  "groundAssets (hitParticle tp c s) = groundAssets s"
  "destroyedAssets (hitParticle tp c s) = destroyedAssets s"
  "length (particles (hitParticle tp c s)) = Suc (length (particles s))"
  "friendlyLosses (hitParticle tp c s) = friendlyLosses s"
  "clock (hitParticle tp c s) = clock s"
  "reads (hitParticle tp c s) = reads s"
  "random (hitParticle tp c s) = random s"
  "draws (hitParticle tp c s) = draws s + 6"
  by (simp_all add: hitParticle_def Let_def)

text \<open>What a call of fireAt does, by the outcome of its cooldown test.\<close>

lemma fireAt_blocked:
  "clock s (reads s) - lastFired (getDrone s this) < 100 \<Longrightarrow>
   fireAt this tgt c damage s = s\<lparr>reads := Suc (reads s)\<rparr>"
  by (cases this) (simp_all add: fireAt_def dateNow_def)

lemma fireAt_fires:
  "\<not> clock s (reads s) - lastFired (getDrone s this) < 100 \<Longrightarrow>
   fireAt this tgt c damage s =
     (let s4 = damageTarget tgt damage
                 (setDrone this (\<lambda>d. d\<lparr>lastFired := clock s (Suc (reads s))\<rparr>)
                    (s\<lparr>reads := Suc (Suc (reads s))\<rparr>))
      in hitParticle (targetPos s4 tgt) c (hitParticle (targetPos s4 tgt) c s4))"
  by (cases this) (simp_all add: fireAt_def dateNow_def Let_def)

lemma target_cases [case_names FriendlyT HostileT AssetT]:
  "(\<And>i. tgt = DroneT (Friendly i) \<Longrightarrow> P) \<Longrightarrow> (\<And>j. tgt = DroneT (Hostile j) \<Longrightarrow> P)
   \<Longrightarrow> (\<And>k. tgt = AssetT k \<Longrightarrow> P) \<Longrightarrow> P"
  by (metis DroneRef.exhaust TargetRef.exhaust)

lemma nth_update_frame:
  "g y = g (xs ! i) \<Longrightarrow> g (xs[i := y] ! k) = g (xs ! k)"
  by (cases "i < length xs"; cases "k = i") (simp_all add: list_update_beyond)

lemma map_update_frame:
  "g y = g (xs ! i) \<Longrightarrow> map g (xs[i := y]) = map g xs"
  by (cases "i < length xs") (simp_all add: map_update list_update_same_conv list_update_beyond)

lemma lastFired_damageTarget [simp]:
  "lastFired (friendlyDrones (damageTarget tgt damage s) ! k) = lastFired (friendlyDrones s ! k)"
  "lastFired (hostileDrones (damageTarget tgt damage s) ! k) = lastFired (hostileDrones s ! k)"
  by (cases tgt rule: target_cases; simp add: nth_update_frame)+

lemma getDrone_hitParticle [simp]: "getDrone (hitParticle tp c s) r = getDrone s r"
  by (cases r) simp_all

lemma lastFired_after_fire:
  assumes "validRef s this" "\<not> clock s (reads s) - lastFired (getDrone s this) < 100"
  shows "lastFired (getDrone (fireAt this tgt c damage s) this) = clock s (Suc (reads s))"
  using assms by (cases this) (simp_all add: fireAt_fires Let_def)


subsection \<open>Formation slots\<close>

text \<open>
  Claim C7. Under the extended-line formation with roster size \<open>M\<close>, the slot of the
  drone at roster index \<open>i\<close> is offset from the centroid of the ground assets by
  \<open>x = (i - M/2) * 50\<close> and \<open>y = 0\<close>, for every index of the roster, and \<open>patrolPosition\<close>
  steers the drone to that point: it moves the drone towards it at half \<open>DRONE_SPEED\<close>
  when the point is more than 5 away, and then applies the separation from the other
  drones.
\<close>

theorem extended_line_slot:
  assumes "groundAssets s \<noteq> []" and "i < length (friendlyDrones s)"
  shows "formationOffset ExtendedLine i (length (friendlyDrones s))
           = Some ((real i - real (length (friendlyDrones s)) / 2) * 50, 0)
       \<and> patrolSlot ExtendedLine i s
           = Some (centerX (groundAssets s) + (real i - real (length (friendlyDrones s)) / 2) * 50,
                   centerY (groundAssets s) + 0)
       \<and> patrolPosition i ExtendedLine s
           = applySeparation i 40
               (if sqrt ((centerX (groundAssets s) + (real i - real (length (friendlyDrones s)) / 2) * 50
                            - x_d (friendlyDrones s ! i))\<^sup>2
                         + (centerY (groundAssets s) + 0 - y_d (friendlyDrones s ! i))\<^sup>2) > 5
                then setFriendly i
                       (moveTo (centerX (groundAssets s)
                                  + (real i - real (length (friendlyDrones s)) / 2) * 50)
                               (centerY (groundAssets s) + 0) (DRONE_SPEED * (1 / 2))) s
                else s)"
  using assms by (simp add: patrolPosition_def patrolSlot_def formationOffset_def jsdiv_def Let_def)

theorem extended_line_slot_witness:
  "patrolSlot ExtendedLine 0 lineSim = Some (300, 300)
   \<and> patrolSlot ExtendedLine 3 lineSim = Some (450, 300)
   \<and> patrolSlot ExtendedLine 0 patrolSim = Some (0, 0)
   \<and> patrolSlot ExtendedLine 3 patrolSim = Some (150, 0)
   \<and> x_d (friendlyDrones (patrolPosition 0 ExtendedLine patrolSim) ! 0) = - 29
   \<and> x_d (friendlyDrones (patrolPosition 3 ExtendedLine patrolSim) ! 3) = 179"
  using extended_line_slot[of lineSim 0] extended_line_slot[of lineSim 3]
        extended_line_slot[of patrolSim 0] extended_line_slot[of patrolSim 3]
  by (simp add: lineSim_def patrolSim_def emptySim_def commandCenter_def newDrone_def centerX_def
        centerY_def applySeparation_def sepStep_def calculateDistance_def pos_d_def moveTo_def
        setFriendly_def DRONE_SPEED_def Let_def)

subsection \<open>Rate-limited fire\<close>

lemma damageTarget_oracles [simp]:
  "reads (damageTarget tgt damage s) = reads s"
  "clock (damageTarget tgt damage s) = clock s"
  "particles (damageTarget tgt damage s) = particles s"
  by (cases tgt rule: target_cases; simp add: setFriendly_def setHostile_def setAsset_def)+

lemma setDrone_oracles [simp]:
  "reads (setDrone r f s) = reads s"
  "clock (setDrone r f s) = clock s"
  "particles (setDrone r f s) = particles s"
  "groundAssets (setDrone r f s) = groundAssets s"
  "length (friendlyDrones (setDrone r f s)) = length (friendlyDrones s)"
  "length (hostileDrones (setDrone r f s)) = length (hostileDrones s)"
  by (cases r; simp add: setFriendly_def setHostile_def)+

lemma fireAt_effect:
  assumes "\<not> clock s (reads s) - lastFired (getDrone s this) < 100"
  shows "reads (fireAt this tgt c damage s) = Suc (Suc (reads s))"
    and "clock (fireAt this tgt c damage s) = clock s"
    and "length (particles (fireAt this tgt c damage s)) = Suc (Suc (length (particles s)))"
  using assms by (simp_all add: fireAt_fires Let_def)

lemma health_setDrone_lastFired [simp]:
  "targetHealth (setDrone r (\<lambda>d. d\<lparr>lastFired := t\<rparr>) s) tgt = targetHealth s tgt"
  by (cases r; cases tgt rule: target_cases)
     (simp_all add: setFriendly_def setHostile_def nth_update_frame)

lemma validTarget_setDrone [simp]:
  "validTarget (setDrone r f s) tgt = validTarget s tgt"
  by (cases r; cases tgt rule: target_cases) (simp_all add: setFriendly_def setHostile_def)

lemma damageTarget_health:
  "validTarget s tgt \<Longrightarrow> targetHealth (damageTarget tgt damage s) tgt = targetHealth s tgt - damage"
  by (cases tgt rule: target_cases) (simp_all add: setFriendly_def setHostile_def setAsset_def)

lemma targetHealth_hitParticle [simp]:
  "targetHealth (hitParticle p c s) tgt = targetHealth s tgt"
  by (cases tgt rule: target_cases) simp_all

lemma targetHealth_reads [simp]:
  "targetHealth (s\<lparr>reads := n\<rparr>) tgt = targetHealth s tgt"
  "validTarget (s\<lparr>reads := n\<rparr>) tgt = validTarget s tgt"
  by (cases tgt rule: target_cases; simp)+

lemma fireAt_damage:
  assumes "\<not> clock s (reads s) - lastFired (getDrone s this) < 100" "validTarget s tgt"
  shows "targetHealth (fireAt this tgt c damage s) tgt = targetHealth s tgt - damage"
  using assms by (simp add: fireAt_fires Let_def damageTarget_health)

text \<open>
  Claim C8. A call of \<open>fireAt\<close> whose clock reading is less than 100 ms after the
  attacker's \<open>lastFired\<close> changes nothing: the three entity collections (so the health
  of the target and the attacker's \<open>lastFired\<close>) and the particle collection are as
  before. Every other call records the second clock reading in \<open>lastFired\<close>, adds two
  particles and takes \<open>damage\<close> from the health of the target. So with a clock that
  does not run backwards every call leaves \<open>lastFired\<close> as it is or moves it forward by
  at least 100 ms, and the call that follows a firing call less than 100 ms after the
  recorded reading changes nothing but the number of clock readings: a drone fires at
  most once per cooldown interval.
\<close>

theorem fireAt_rate_limited:
  assumes "validRef s this"
  shows "(clock s (reads s) - lastFired (getDrone s this) < 100 \<longrightarrow>
            friendlyDrones (fireAt this tgt c damage s) = friendlyDrones s
          \<and> hostileDrones (fireAt this tgt c damage s) = hostileDrones s
          \<and> groundAssets (fireAt this tgt c damage s) = groundAssets s
          \<and> particles (fireAt this tgt c damage s) = particles s
          \<and> targetHealth (fireAt this tgt c damage s) tgt = targetHealth s tgt
          \<and> lastFired (getDrone (fireAt this tgt c damage s) this) = lastFired (getDrone s this))
       \<and> (clock s (reads s) \<le> clock s (Suc (reads s)) \<longrightarrow>
            lastFired (getDrone (fireAt this tgt c damage s) this) = lastFired (getDrone s this)
          \<or> lastFired (getDrone (fireAt this tgt c damage s) this) \<ge> lastFired (getDrone s this) + 100)
       \<and> (\<not> clock s (reads s) - lastFired (getDrone s this) < 100 \<longrightarrow>
            lastFired (getDrone (fireAt this tgt c damage s) this) = clock s (Suc (reads s))
          \<and> length (particles (fireAt this tgt c damage s)) = length (particles s) + 2
          \<and> (validTarget s tgt \<longrightarrow>
               targetHealth (fireAt this tgt c damage s) tgt = targetHealth s tgt - damage))
       \<and> (\<not> clock s (reads s) - lastFired (getDrone s this) < 100
          \<and> clock s (reads s + 2) - clock s (Suc (reads s)) < 100 \<longrightarrow>
            fireAt this tgt' c' damage' (fireAt this tgt c damage s)
              = (fireAt this tgt c damage s)\<lparr>reads := reads s + 3\<rparr>)"
proof (cases "clock s (reads s) - lastFired (getDrone s this) < 100")
  case True
  have "fireAt this tgt c damage s = s\<lparr>reads := Suc (reads s)\<rparr>"
    using True by (rule fireAt_blocked)
  then show ?thesis
    using True by (cases this; cases tgt rule: target_cases) simp_all
next
  case False
  let ?F = "fireAt this tgt c damage s"
  note lf = lastFired_after_fire[OF assms False, of tgt c damage]
  note eff = fireAt_effect[OF False, of tgt c damage]
  have second: "fireAt this tgt' c' damage' ?F = ?F\<lparr>reads := reads s + 3\<rparr>"
    if "clock s (reads s + 2) - clock s (Suc (reads s)) < 100"
  proof -
    have "clock ?F (reads ?F) - lastFired (getDrone ?F this) < 100"
      using that by (simp add: lf eff)
    then have "fireAt this tgt' c' damage' ?F = ?F\<lparr>reads := Suc (reads ?F)\<rparr>"
      by (rule fireAt_blocked)
    then show ?thesis by (simp add: eff)
  qed
  show ?thesis
    using False lf eff(3) fireAt_damage[OF False, of tgt c damage] second by auto
qed

theorem fireAt_rate_limited_witness:
  "particles (fireAt (Friendly 0) (DroneT (Hostile 0)) ''#fbbf24'' 2 cooldownSim) = []
   \<and> targetHealth (fireAt (Friendly 0) (DroneT (Hostile 0)) ''#fbbf24'' 2 cooldownSim)
        (DroneT (Hostile 0)) = 100
   \<and> lastFired (getDrone (fireAt (Friendly 0) (DroneT (Hostile 0)) ''#fbbf24'' 2 cooldownSim)
        (Friendly 0)) = 950
   \<and> lastFired (getDrone (fireAt (Friendly 0) (DroneT (Hostile 0)) ''#fbbf24'' 2 rapidSim)
        (Friendly 0)) = 1001
   \<and> targetHealth (fireAt (Friendly 0) (DroneT (Hostile 0)) ''#fbbf24'' 2 rapidSim)
        (DroneT (Hostile 0)) = 98
   \<and> targetHealth
        (fireAt (Friendly 0) (DroneT (Hostile 0)) ''#fbbf24'' 2
           (fireAt (Friendly 0) (DroneT (Hostile 0)) ''#fbbf24'' 2 rapidSim))
        (DroneT (Hostile 0)) = 98"
  using fireAt_rate_limited[of cooldownSim "Friendly 0" "DroneT (Hostile 0)" "''#fbbf24''" 2]
        fireAt_rate_limited[of rapidSim "Friendly 0" "DroneT (Hostile 0)" "''#fbbf24''" 2
          "DroneT (Hostile 0)" "''#fbbf24''" 2]
  by (simp add: cooldownSim_def rapidSim_def emptySim_def newDrone_def)

subsection \<open>The hostile branch of \<open>update\<close>\<close>

lemma calculateDistance_cong:
  "x_d d' = x_d d \<Longrightarrow> y_d d' = y_d d \<Longrightarrow> calculateDistance d' p = calculateDistance d p"
  by (simp add: calculateDistance_def)

lemma nearest_cong:
  "x_d d' = x_d d \<Longrightarrow> y_d d' = y_d d \<Longrightarrow> nearest d' ps = nearest d ps"
  by (simp add: nearest_def calculateDistance_def[abs_def])

lemma nearest_jammingTargets [simp]:
  "nearest (d\<lparr>jammingTargets := v\<rparr>) ps = nearest d ps"
  by (rule nearest_cong) simp_all

lemma fireAt_groundAssets [simp]:
  "groundAssets (fireAt this (DroneT r) c damage s) = groundAssets s"
  by (cases "clock s (reads s) - lastFired (getDrone s this) < 100"; cases this; cases r)
     (simp_all add: fireAt_blocked fireAt_fires Let_def)

lemma fireAt_asset_friendlyDrones [simp]:
  "friendlyDrones (fireAt (Hostile j) (AssetT k) c damage s) = friendlyDrones s"
  by (cases "clock s (reads s) - lastFired (getDrone s (Hostile j)) < 100")
     (simp_all add: fireAt_blocked fireAt_fires Let_def)

lemma movementLogic_proj [simp]:
  "friendlyDrones (movementLogic j speed na nf s) = friendlyDrones s"
  "groundAssets (movementLogic j speed na nf s) = groundAssets s"
  "particles (movementLogic j speed na nf s) = particles s"
  "reads (movementLogic j speed na nf s) = reads s"
  by (simp_all add: movementLogic_def split: option.splits prod.splits)

lemma combatLogic_selfDefense:
  "m \<le> FIRING_RANGE \<Longrightarrow> groundAssets (combatLogic j speed na (Some (f, m)) s) = groundAssets s"
  by (simp add: combatLogic_def Let_def)

lemma combatLogic_exclusive:
  "friendlyDrones (combatLogic j speed na nf s) = friendlyDrones s
   \<or> groundAssets (combatLogic j speed na nf s) = groundAssets s"
  by (simp add: combatLogic_def Let_def split: option.splits prod.splits)


text \<open>The definitions unfolded to run the hostile branch on a concrete state.\<close>

lemmas eval_defs = updateHostile_def combatLogic_def movementLogic_def currentSpeed_def nearest_def
  calculateDistance_def pos_d_def pos_a_def moveTo_def fireAt_def dateNow_def hitParticle_def
  addParticle_def setHostile_def setFriendly_def setAsset_def Let_def
  FIRING_RANGE_def HOSTILE_SPEED_def BOMBER_SPEED_def emptySim_def newDrone_def commandCenter_def


text \<open>
  Claim C6. In the step of a hostile drone, fire on a friendly and damage to a ground
  asset exclude each other: when the hostile is not jammed and its nearest friendly is
  within \<open>FIRING_RANGE\<close>, the asset collection is left as it was; and in every step,
  if any friendly drone was changed then no asset was.
\<close>

theorem hostile_fire_exclusive:
  assumes "j < length (hostileDrones s)"
  shows "(\<not> isJammed (hostileDrones s ! j)
          \<and> nearest (hostileDrones s ! j) (map pos_d (friendlyDrones s)) = Some (f, m)
          \<and> m \<le> FIRING_RANGE
          \<longrightarrow> groundAssets (updateHostile j s) = groundAssets s)
       \<and> (friendlyDrones (updateHostile j s) \<noteq> friendlyDrones s
          \<longrightarrow> groundAssets (updateHostile j s) = groundAssets s)"
proof -
  let ?s0 = "setHostile j (\<lambda>d. d\<lparr>jammingTargets := []\<rparr>) s"
  show ?thesis
  proof (intro conjI impI)
    assume "\<not> isJammed (hostileDrones s ! j)
          \<and> nearest (hostileDrones s ! j) (map pos_d (friendlyDrones s)) = Some (f, m)
          \<and> m \<le> FIRING_RANGE"
    then show "groundAssets (updateHostile j s) = groundAssets s"
      using assms by (simp add: updateHostile_def Let_def combatLogic_selfDefense)
  next
    assume "friendlyDrones (updateHostile j s) \<noteq> friendlyDrones s"
    then show "groundAssets (updateHostile j s) = groundAssets s"
      using combatLogic_exclusive[of j "currentSpeed (hostileDrones ?s0 ! j)"
              "nearest (hostileDrones ?s0 ! j) (map pos_a (groundAssets ?s0))"
              "nearest (hostileDrones ?s0 ! j) (map pos_d (friendlyDrones ?s0))" ?s0]
      by (auto simp: updateHostile_def Let_def split: if_splits)
  qed
qed

theorem hostile_fire_exclusive_witness:
  "health_d (friendlyDrones (updateHostile 0 duelSim) ! 0) = 985 / 10
   \<and> groundAssets (updateHostile 0 duelSim) = groundAssets duelSim"
proof -
  have a: "groundAssets (updateHostile 0 duelSim) = groundAssets duelSim"
    using hostile_fire_exclusive[of 0 duelSim 0 30]
    by (simp add: duelSim_def emptySim_def newDrone_def nearest_def calculateDistance_def
          pos_d_def FIRING_RANGE_def)
  have b: "health_d (friendlyDrones (updateHostile 0 duelSim) ! 0) = 985 / 10"
    by (simp add: duelSim_def eval_defs)
  show ?thesis using a b by simp
qed


subsection \<open>Threat scoring\<close>

lemma othersTargeting_retype:
  "othersTargeting i (hostile\<lparr>type_d := t\<rparr>) (map (\<lambda>d. d\<lparr>type_d := f d\<rparr>) fs)
     = othersTargeting i hostile fs"
proof -
  have "filter (\<lambda>k. k \<noteq> i \<and> target (map (\<lambda>d. d\<lparr>type_d := f d\<rparr>) fs ! k) = Some (id_d hostile))
          [0..<length fs]
        = filter (\<lambda>k. k \<noteq> i \<and> target (fs ! k) = Some (id_d hostile)) [0..<length fs]"
    by (rule filter_cong) simp_all
  then show ?thesis by (simp add: othersTargeting_def)
qed

lemma baseScore_retype:
  "i < length fs \<Longrightarrow>
   baseScore i (hostile\<lparr>type_d := t\<rparr>) assets (map (\<lambda>d. d\<lparr>type_d := f d\<rparr>) fs) hc
     = baseScore i hostile assets fs hc"
  by (simp add: baseScore_def othersTargeting_retype pos_d_def calculateDistance_def
        nearest_cong[of "hostile\<lparr>type_d := t\<rparr>" hostile])

lemma score_split:
  "calculateThreatScore i hostile assets fs hc
     = baseScore i hostile assets fs hc
       + (if type_d (fs ! i) = TDrone \<and> friendlyBombersExist fs
          then (if type_d hostile = TDrone then 2000 else - 500)
          else (if type_d hostile = TBomber then 500 else 0))"
  by (simp add: calculateThreatScore_def baseScore_def Let_def)

text \<open>
  Claim C5, as amended. The score is \<open>baseScore\<close> plus a type-preference term that
  depends on the scoring drone. When the scorer is an interceptor and a live friendly
  bomber exists, the term is 2000 for a hostile interceptor and -500 for a hostile
  bomber; in every other case, also when the scorer is itself a bomber, it is 500 for a
  hostile bomber and 0 for a hostile interceptor. \<open>baseScore\<close> does not depend on the
  type of any drone, so the score of a hostile interceptor exceeds that of the same
  hostile as a bomber by 2500 in the first case and by -500 in the second.
\<close>

theorem type_preference_in_score:
  "(type_d (fs ! i) = TDrone \<and> friendlyBombersExist fs \<longrightarrow>
      (type_d hostile = TDrone \<longrightarrow>
         calculateThreatScore i hostile assets fs hasCommunication
           = baseScore i hostile assets fs hasCommunication + 2000)
    \<and> (type_d hostile = TBomber \<longrightarrow>
         calculateThreatScore i hostile assets fs hasCommunication
           = baseScore i hostile assets fs hasCommunication - 500))
   \<and> (\<not> (type_d (fs ! i) = TDrone \<and> friendlyBombersExist fs) \<longrightarrow>
      (type_d hostile = TBomber \<longrightarrow>
         calculateThreatScore i hostile assets fs hasCommunication
           = baseScore i hostile assets fs hasCommunication + 500)
    \<and> (type_d hostile = TDrone \<longrightarrow>
         calculateThreatScore i hostile assets fs hasCommunication
           = baseScore i hostile assets fs hasCommunication))
   \<and> (i < length fs \<longrightarrow>
        baseScore i (hostile\<lparr>type_d := t\<rparr>) assets (map (\<lambda>d. d\<lparr>type_d := f d\<rparr>) fs)
          hasCommunication
        = baseScore i hostile assets fs hasCommunication)
   \<and> calculateThreatScore i (hostile\<lparr>type_d := TDrone\<rparr>) assets fs hasCommunication
       - calculateThreatScore i (hostile\<lparr>type_d := TBomber\<rparr>) assets fs hasCommunication
     = (if type_d (fs ! i) = TDrone \<and> friendlyBombersExist fs then 2500 else - 500)"
proof -
  have "baseScore i (hostile\<lparr>type_d := TDrone\<rparr>) assets fs hasCommunication
          = baseScore i (hostile\<lparr>type_d := TBomber\<rparr>) assets fs hasCommunication"
    by (simp add: baseScore_def othersTargeting_def pos_d_def
          nearest_cong[of "hostile\<lparr>type_d := TDrone\<rparr>" hostile]
          nearest_cong[of "hostile\<lparr>type_d := TBomber\<rparr>" hostile])
  then show ?thesis
    by (simp add: score_split baseScore_retype)
qed

theorem type_preference_in_score_witness:
  "calculateThreatScore 0 (newDrone ''H-1'' 30 0 TDrone) []
     [newDrone ''F-1'' 0 0 TDrone, newDrone ''B-1'' 0 0 TBomber] True = 100 + 50 / 31 + 2000
   \<and> calculateThreatScore 0 (newDrone ''HB-1'' 30 0 TBomber) []
       [newDrone ''F-1'' 0 0 TDrone, newDrone ''B-1'' 0 0 TBomber] True = 100 + 50 / 31 - 500
   \<and> calculateThreatScore 0 (newDrone ''HB-1'' 30 0 TBomber) []
       [newDrone ''F-1'' 0 0 TDrone, newDrone ''F-2'' 0 0 TDrone] True = 100 + 50 / 31 + 500
   \<and> calculateThreatScore 0 (newDrone ''H-1'' 30 0 TDrone) []
       [newDrone ''F-1'' 0 0 TDrone, newDrone ''F-2'' 0 0 TDrone] True = 100 + 50 / 31"
  using type_preference_in_score[of "[newDrone ''F-1'' 0 0 TDrone, newDrone ''B-1'' 0 0 TBomber]"
          0 "newDrone ''H-1'' 30 0 TDrone" "[]" True]
        type_preference_in_score[of "[newDrone ''F-1'' 0 0 TDrone, newDrone ''B-1'' 0 0 TBomber]"
          0 "newDrone ''HB-1'' 30 0 TBomber" "[]" True]
        type_preference_in_score[of "[newDrone ''F-1'' 0 0 TDrone, newDrone ''F-2'' 0 0 TDrone]"
          0 "newDrone ''HB-1'' 30 0 TBomber" "[]" True]
        type_preference_in_score[of "[newDrone ''F-1'' 0 0 TDrone, newDrone ''F-2'' 0 0 TDrone]"
          0 "newDrone ''H-1'' 30 0 TDrone" "[]" True]
  by (simp add: friendlyBombersExist_def newDrone_def baseScore_def nearest_def
        othersTargeting_def calculateDistance_def pos_d_def)

text \<open>
  The claim as stated fails for a scorer that is a bomber: a live friendly bomber
  exists, and the hostile bomber gets the bonus of 500, the hostile interceptor nothing.
\<close>

theorem bomber_scorer_counterexample:
  "friendlyBombersExist [newDrone ''B-1'' 0 0 TBomber]
   \<and> calculateThreatScore 0 (newDrone ''HB-1'' 30 0 TBomber) []
        [newDrone ''B-1'' 0 0 TBomber] True = 100 + 50 / 31 + 500
   \<and> calculateThreatScore 0 (newDrone ''H-1'' 30 0 TDrone) []
        [newDrone ''B-1'' 0 0 TBomber] True = 100 + 50 / 31"
  by (simp add: calculateThreatScore_def newDrone_def nearest_def friendlyBombersExist_def
        othersTargeting_def calculateDistance_def pos_d_def Let_def)

subsection \<open>A jammed hostile\<close>

lemma fireAt_length [simp]:
  "length (friendlyDrones (fireAt this tgt c damage s)) = length (friendlyDrones s)"
  "length (hostileDrones (fireAt this tgt c damage s)) = length (hostileDrones s)"
  "length (groundAssets (fireAt this tgt c damage s)) = length (groundAssets s)"
  by (cases "clock s (reads s) - lastFired (getDrone s this) < 100";
      cases this; cases tgt rule: target_cases;
      simp add: fireAt_blocked fireAt_fires Let_def)+

lemma fireAt_nth_friendly:
  assumes "\<And>d v. g (d\<lparr>lastFired := v\<rparr>) = g d" "\<And>d v. g (d\<lparr>health_d := v\<rparr>) = g d"
  shows "g (friendlyDrones (fireAt this tgt c damage s) ! k) = g (friendlyDrones s ! k)"
  by (cases "clock s (reads s) - lastFired (getDrone s this) < 100";
      cases this; cases tgt rule: target_cases)
     (simp_all add: fireAt_blocked fireAt_fires Let_def nth_update_frame assms)

lemma fireAt_nth_hostile:
  assumes "\<And>d v. g (d\<lparr>lastFired := v\<rparr>) = g d" "\<And>d v. g (d\<lparr>health_d := v\<rparr>) = g d"
  shows "g (hostileDrones (fireAt this tgt c damage s) ! k) = g (hostileDrones s ! k)"
  by (cases "clock s (reads s) - lastFired (getDrone s this) < 100";
      cases this; cases tgt rule: target_cases)
     (simp_all add: fireAt_blocked fireAt_fires Let_def nth_update_frame assms)

lemma fireAt_nth_asset:
  assumes "\<And>a v. g (a\<lparr>health_a := v\<rparr>) = g a"
  shows "g (groundAssets (fireAt this tgt c damage s) ! k) = g (groundAssets s ! k)"
  by (cases "clock s (reads s) - lastFired (getDrone s this) < 100";
      cases this; cases tgt rule: target_cases)
     (simp_all add: fireAt_blocked fireAt_fires Let_def nth_update_frame assms)

lemma moveTo_x:
  "x_d (moveTo tx ty speed d) =
     x_d d + (if sqrt ((tx - x_d d) * (tx - x_d d) + (ty - y_d d) * (ty - y_d d)) > 1
              then (tx - x_d d) / sqrt ((tx - x_d d) * (tx - x_d d) + (ty - y_d d) * (ty - y_d d)) * speed
              else 0)"
  by (simp add: moveTo_def Let_def)

lemma moveTo_y:
  "y_d (moveTo tx ty speed d) =
     y_d d + (if sqrt ((tx - x_d d) * (tx - x_d d) + (ty - y_d d) * (ty - y_d d)) > 1
              then (ty - y_d d) / sqrt ((tx - x_d d) * (tx - x_d d) + (ty - y_d d) * (ty - y_d d)) * speed
              else 0)"
  by (simp add: moveTo_def Let_def)

lemma combatLogic_still:
  assumes "\<not> pursuesFriendly j s"
    and "na = nearest (hostileDrones s ! j) (map pos_a (groundAssets s))"
    and "nf = nearest (hostileDrones s ! j) (map pos_d (friendlyDrones s))"
  shows "x_d (hostileDrones (combatLogic j speed na nf s) ! k) = x_d (hostileDrones s ! k)"
    and "y_d (hostileDrones (combatLogic j speed na nf s) ! k) = y_d (hostileDrones s ! k)"
    and "x_d (friendlyDrones (combatLogic j speed na nf s) ! k) = x_d (friendlyDrones s ! k)"
    and "y_d (friendlyDrones (combatLogic j speed na nf s) ! k) = y_d (friendlyDrones s ! k)"
    and "x_a (groundAssets (combatLogic j speed na nf s) ! k) = x_a (groundAssets s ! k)"
    and "y_a (groundAssets (combatLogic j speed na nf s) ! k) = y_a (groundAssets s ! k)"
    and "length (hostileDrones (combatLogic j speed na nf s)) = length (hostileDrones s)"
  using assms
  by (auto simp: combatLogic_def pursuesFriendly_def Let_def fireAt_nth_hostile fireAt_nth_friendly
        fireAt_nth_asset split: option.splits)

lemma movementLogic_x:
  assumes "j < length (hostileDrones s)"
  shows "x_d (hostileDrones (movementLogic j speed na nf s) ! j) =
     (case na of
        Some (k, minAssetDist) \<Rightarrow>
          if minAssetDist > FIRING_RANGE * (8 / 10)
          then x_d (moveTo (x_a (groundAssets s ! k)) (y_a (groundAssets s ! k)) speed (hostileDrones s ! j))
          else x_d (hostileDrones s ! j)
      | None \<Rightarrow>
          (case nf of
             Some (f, minFriendlyDist) \<Rightarrow>
               x_d (moveTo (x_d (friendlyDrones s ! f)) (y_d (friendlyDrones s ! f)) speed (hostileDrones s ! j))
           | None \<Rightarrow> x_d (hostileDrones s ! j)))"
  using assms by (simp add: movementLogic_def split: option.splits)

lemma movementLogic_y:
  assumes "j < length (hostileDrones s)"
  shows "y_d (hostileDrones (movementLogic j speed na nf s) ! j) =
     (case na of
        Some (k, minAssetDist) \<Rightarrow>
          if minAssetDist > FIRING_RANGE * (8 / 10)
          then y_d (moveTo (x_a (groundAssets s ! k)) (y_a (groundAssets s ! k)) speed (hostileDrones s ! j))
          else y_d (hostileDrones s ! j)
      | None \<Rightarrow>
          (case nf of
             Some (f, minFriendlyDist) \<Rightarrow>
               y_d (moveTo (x_d (friendlyDrones s ! f)) (y_d (friendlyDrones s ! f)) speed (hostileDrones s ! j))
           | None \<Rightarrow> y_d (hostileDrones s ! j)))"
  using assms by (simp add: movementLogic_def split: option.splits)

lemma nearest_isJammed [simp]:
  "nearest (d\<lparr>isJammed := v\<rparr>) ps = nearest d ps"
  by (rule nearest_cong) simp_all

lemma jammed_fires_nothing:
  assumes "j < length (hostileDrones s)" and "isJammed (hostileDrones s ! j)"
  shows "friendlyDrones (updateHostile j s) = friendlyDrones s"
    and "groundAssets (updateHostile j s) = groundAssets s"
    and "particles (updateHostile j s) = particles s"
    and "reads (updateHostile j s) = reads s"
    and "lastFired (hostileDrones (updateHostile j s) ! j) = lastFired (hostileDrones s ! j)"
    and "health_d (hostileDrones (updateHostile j s) ! j) = health_d (hostileDrones s ! j)"
  using assms
  by (simp_all add: updateHostile_def Let_def movementLogic_def moveTo_def split: option.splits)

lemma movementLogic_scaled:
  assumes "j < length (hostileDrones s)" and "j < length (hostileDrones s')"
    and "x_d (hostileDrones s' ! j) = x_d (hostileDrones s ! j)"
    and "y_d (hostileDrones s' ! j) = y_d (hostileDrones s ! j)"
    and "\<And>k. x_d (friendlyDrones s' ! k) = x_d (friendlyDrones s ! k)"
    and "\<And>k. y_d (friendlyDrones s' ! k) = y_d (friendlyDrones s ! k)"
    and "\<And>k. x_a (groundAssets s' ! k) = x_a (groundAssets s ! k)"
    and "\<And>k. y_a (groundAssets s' ! k) = y_a (groundAssets s ! k)"
  shows "x_d (hostileDrones (movementLogic j (speed * c) na nf s) ! j) - x_d (hostileDrones s ! j)
         = c * (x_d (hostileDrones (movementLogic j speed na nf s') ! j) - x_d (hostileDrones s ! j))"
    and "y_d (hostileDrones (movementLogic j (speed * c) na nf s) ! j) - y_d (hostileDrones s ! j)
         = c * (y_d (hostileDrones (movementLogic j speed na nf s') ! j) - y_d (hostileDrones s ! j))"
  using assms
  by (simp_all add: movementLogic_x movementLogic_y moveTo_x moveTo_y split: option.splits)

lemma jammed_displacement:
  assumes j: "j < length (hostileDrones s)" and jam: "isJammed (hostileDrones s ! j)"
    and np: "\<not> pursuesFriendly j s"
  shows "x_d (hostileDrones (updateHostile j s) ! j) - x_d (hostileDrones s ! j)
         = (2 / 10) * (x_d (hostileDrones (updateHostile j (setHostile j (\<lambda>d. d\<lparr>isJammed := False\<rparr>) s)) ! j)
                       - x_d (hostileDrones s ! j))"
    and "y_d (hostileDrones (updateHostile j s) ! j) - y_d (hostileDrones s ! j)
         = (2 / 10) * (y_d (hostileDrones (updateHostile j (setHostile j (\<lambda>d. d\<lparr>isJammed := False\<rparr>) s)) ! j)
                       - y_d (hostileDrones s ! j))"
proof -
  let ?h = "hostileDrones s ! j"
  let ?u = "setHostile j (\<lambda>d. d\<lparr>isJammed := False\<rparr>) s"
  let ?sz = "setHostile j (\<lambda>d. d\<lparr>jammingTargets := []\<rparr>) s"
  let ?uz = "setHostile j (\<lambda>d. d\<lparr>jammingTargets := []\<rparr>) ?u"
  let ?na = "nearest ?h (map pos_a (groundAssets s))"
  let ?nf = "nearest ?h (map pos_d (friendlyDrones s))"
  let ?sp = "if type_d ?h = TBomber then BOMBER_SPEED else HOSTILE_SPEED"
  let ?uc = "combatLogic j ?sp ?na ?nf ?uz"
  have jam_eq: "updateHostile j s = movementLogic j (?sp * (2 / 10)) ?na ?nf ?sz"
    using j jam by (simp add: updateHostile_def Let_def currentSpeed_def)
  have un_eq: "updateHostile j ?u = movementLogic j ?sp ?na ?nf ?uc"
    using j by (simp add: updateHostile_def Let_def currentSpeed_def)
  have np0: "\<not> pursuesFriendly j ?uz"
    using j np by (simp add: pursuesFriendly_def Let_def cong: option.case_cong)
  have na0: "?na = nearest (hostileDrones ?uz ! j) (map pos_a (groundAssets ?uz))"
    and nf0: "?nf = nearest (hostileDrones ?uz ! j) (map pos_d (friendlyDrones ?uz))"
    using j by simp_all
  note still = combatLogic_still[OF np0 na0 nf0, of ?sp]
  have len1: "j < length (hostileDrones ?uc)"
    using j still(7) by simp
  have hx: "x_d (hostileDrones ?uc ! j) = x_d ?h" and hy: "y_d (hostileDrones ?uc ! j) = y_d ?h"
    using j still(1)[of j] still(2)[of j] by simp_all
  have fx: "x_d (friendlyDrones ?uc ! k) = x_d (friendlyDrones s ! k)"
    and fy: "y_d (friendlyDrones ?uc ! k) = y_d (friendlyDrones s ! k)"
    and ax: "x_a (groundAssets ?uc ! k) = x_a (groundAssets s ! k)"
    and ay: "y_a (groundAssets ?uc ! k) = y_a (groundAssets s ! k)" for k
    using still(3)[of k] still(4)[of k] still(5)[of k] still(6)[of k] by simp_all
  have len0: "j < length (hostileDrones ?sz)" using j by simp
  have h0: "x_d (hostileDrones ?sz ! j) = x_d ?h" "y_d (hostileDrones ?sz ! j) = y_d ?h"
    using j by simp_all
  have hx': "x_d (hostileDrones ?uc ! j) = x_d (hostileDrones ?sz ! j)"
    and hy': "y_d (hostileDrones ?uc ! j) = y_d (hostileDrones ?sz ! j)"
    using hx hy h0 by simp_all
  have fx': "x_d (friendlyDrones ?uc ! k) = x_d (friendlyDrones ?sz ! k)"
    and fy': "y_d (friendlyDrones ?uc ! k) = y_d (friendlyDrones ?sz ! k)"
    and ax': "x_a (groundAssets ?uc ! k) = x_a (groundAssets ?sz ! k)"
    and ay': "y_a (groundAssets ?uc ! k) = y_a (groundAssets ?sz ! k)" for k
    using fx fy ax ay by simp_all
  note sc = movementLogic_scaled[OF len0 len1 hx' hy' fx' fy' ax' ay', of ?sp "2 / 10" ?na ?nf]
  show "x_d (hostileDrones (updateHostile j s) ! j) - x_d ?h
         = (2 / 10) * (x_d (hostileDrones (updateHostile j ?u) ! j) - x_d ?h)"
    unfolding jam_eq un_eq using sc(1) h0 by simp
  show "y_d (hostileDrones (updateHostile j s) ! j) - y_d ?h
         = (2 / 10) * (y_d (hostileDrones (updateHostile j ?u) ! j) - y_d ?h)"
    unfolding jam_eq un_eq using sc(2) h0 by simp
qed


text \<open>
  Claim C4, as amended. A jammed hostile fires at nothing in its step: friendlies,
  assets and particles are untouched, the clock is not read and its \<open>lastFired\<close> stays.
  Its displacement is 20% of the displacement the same hostile would make from the same
  state when not jammed, provided the hostile when not jammed would not take the third
  combat branch (pursuit of a friendly between 50 and 75 away with no asset within 50),
  which is an extra move that the jammed hostile skips. Numbers are reals here: the
  equation of the two displacements is one of exact arithmetic, and the doubles of the
  source (where the speed is the product \<open>1.5 * 0.2\<close> or \<open>1.2 * 0.2\<close>) satisfy it up
  to rounding only.
\<close>

theorem jammed_hostile_step:
  assumes "j < length (hostileDrones s)" and "isJammed (hostileDrones s ! j)"
  shows "friendlyDrones (updateHostile j s) = friendlyDrones s
       \<and> groundAssets (updateHostile j s) = groundAssets s
       \<and> particles (updateHostile j s) = particles s
       \<and> reads (updateHostile j s) = reads s
       \<and> lastFired (hostileDrones (updateHostile j s) ! j) = lastFired (hostileDrones s ! j)
       \<and> (\<not> pursuesFriendly j s \<longrightarrow>
            x_d (hostileDrones (updateHostile j s) ! j) - x_d (hostileDrones s ! j)
              = (2 / 10) * (x_d (hostileDrones
                                  (updateHostile j (setHostile j (\<lambda>d. d\<lparr>isJammed := False\<rparr>) s)) ! j)
                            - x_d (hostileDrones s ! j))
          \<and> y_d (hostileDrones (updateHostile j s) ! j) - y_d (hostileDrones s ! j)
              = (2 / 10) * (y_d (hostileDrones
                                  (updateHostile j (setHostile j (\<lambda>d. d\<lparr>isJammed := False\<rparr>) s)) ! j)
                            - y_d (hostileDrones s ! j)))"
  using jammed_fires_nothing[OF assms] jammed_displacement[OF assms] by simp

text \<open>
  In \<open>jammedSim\<close> the hostile when not jammed fires on the friendly and then moves 1.5
  towards the asset; jammed, it moves 0.3.
\<close>

theorem jammed_hostile_step_witness:
  "friendlyDrones (updateHostile 0 jammedSim) = friendlyDrones jammedSim
   \<and> y_d (hostileDrones (updateHostile 0 jammedSim) ! 0) = 3 / 10
   \<and> y_d (hostileDrones
            (updateHostile 0 (setHostile 0 (\<lambda>d. d\<lparr>isJammed := False\<rparr>) jammedSim)) ! 0) = 15 / 10"
proof -
  have np: "\<not> pursuesFriendly 0 jammedSim"
    by (simp add: jammedSim_def pursuesFriendly_def eval_defs)
  have j: "0 < length (hostileDrones jammedSim)" and jam: "isJammed (hostileDrones jammedSim ! 0)"
    by (simp_all add: jammedSim_def emptySim_def)
  have u: "y_d (hostileDrones
                 (updateHostile 0 (setHostile 0 (\<lambda>d. d\<lparr>isJammed := False\<rparr>) jammedSim)) ! 0) = 15 / 10"
    by (simp add: jammedSim_def eval_defs)
  have y0: "y_d (hostileDrones jammedSim ! 0) = 0"
    by (simp add: jammedSim_def emptySim_def newDrone_def)
  show ?thesis
    using jammed_hostile_step[OF j jam] np u y0 by simp
qed

text \<open>
  The claim as stated fails in \<open>pursuitSim\<close>: not jammed, the hostile moves twice
  towards the friendly (pursuit, then the movement logic) and ends at \<open>x = 3\<close>; jammed,
  it moves once and ends at \<open>x = 0.3\<close>, which is 10% and not 20% of 3.
\<close>

theorem jammed_displacement_counterexample:
  "isJammed (hostileDrones pursuitSim ! 0)
   \<and> x_d (hostileDrones pursuitSim ! 0) = 0
   \<and> x_d (hostileDrones (updateHostile 0 pursuitSim) ! 0) = 3 / 10
   \<and> x_d (hostileDrones
            (updateHostile 0 (setHostile 0 (\<lambda>d. d\<lparr>isJammed := False\<rparr>) pursuitSim)) ! 0) = 3"
  by (simp add: pursuitSim_def eval_defs real_sqrt_divide)


subsection \<open>What an update leaves unchanged\<close>


lemma ignoresD: "ignores upd g \<Longrightarrow> g (upd f d) = g d"
  by (simp add: ignores_def)

lemma ignoresMotionD:
  assumes "ignoresMotion g"
  shows "g (x_d_update fx d) = g d" "g (y_d_update fy d) = g d" "g (vx_update fvx d) = g d"
    "g (vy_update fvy d) = g d" "g (trail_update ft d) = g d"
  using assms by (simp_all add: ignoresMotion_def ignores_def)

lemma moveTo_ignored: "ignoresMotion g \<Longrightarrow> g (moveTo tx ty speed d) = g d"
  by (simp add: moveTo_def Let_def ignoresMotionD)

lemma fold_frame:
  assumes "\<And>x s. p (f x s) = p s"
  shows "p (fold f xs s) = p s"
  by (induction xs arbitrary: s) (simp_all add: assms)

lemma setFriendly_map:
  "(\<And>d. g (f d) = g d) \<Longrightarrow>
   map g (friendlyDrones (setFriendly i f s)) = map g (friendlyDrones s)"
  by (simp add: map_update_frame)

lemma setHostile_map:
  "(\<And>d. g (f d) = g d) \<Longrightarrow>
   map g (hostileDrones (setHostile i f s)) = map g (hostileDrones s)"
  by (simp add: map_update_frame)

lemma setAsset_map:
  "(\<And>a. g (f a) = g a) \<Longrightarrow>
   map g (groundAssets (setAsset i f s)) = map g (groundAssets s)"
  by (simp add: map_update_frame)

lemmas set_proj_list = setFriendly_proj(1) setHostile_proj(2) setAsset_proj(3)

lemma mathRandom_proj [simp]:
  "friendlyDrones (snd (mathRandom s)) = friendlyDrones s"
  "hostileDrones (snd (mathRandom s)) = hostileDrones s"
  "groundAssets (snd (mathRandom s)) = groundAssets s"
  "destroyedAssets (snd (mathRandom s)) = destroyedAssets s"
  "friendlyLosses (snd (mathRandom s)) = friendlyLosses s"
  "particles (snd (mathRandom s)) = particles s"
  "reads (snd (mathRandom s)) = reads s"
  "clock (snd (mathRandom s)) = clock s"
  by (simp_all add: mathRandom_def)

subsection \<open>Autonomous mode\<close>

lemma autonomousMode_others [simp]:
  "hostileDrones (autonomousMode i s) = hostileDrones s"
  "groundAssets (autonomousMode i s) = groundAssets s"
  "particles (autonomousMode i s) = particles s"
  "reads (autonomousMode i s) = reads s"
  by (simp_all add: autonomousMode_def mathRandom_def Let_def)

lemma autonomousMode_friendlies:
  "ignoresMotion g \<Longrightarrow> map g (friendlyDrones (autonomousMode i s)) = map g (friendlyDrones s)"
  by (simp add: autonomousMode_def mathRandom_def Let_def moveTo_ignored ignoresMotionD
        setFriendly_map del: set_proj_list)

subsection \<open>Reconnection\<close>

lemma rescueStep_others [simp]:
  "hostileDrones (fst (rescueStep i k sp)) = hostileDrones (fst sp)"
  "groundAssets (fst (rescueStep i k sp)) = groundAssets (fst sp)"
  "particles (fst (rescueStep i k sp)) = particles (fst sp)"
  "reads (fst (rescueStep i k sp)) = reads (fst sp)"
  "draws (fst (rescueStep i k sp)) = draws (fst sp)"
  by (simp_all add: rescueStep_def Let_def split_beta split: option.splits)

lemma rescueStep_friendlies:
  "ignoresMotion g \<Longrightarrow> ignores lostCoords_update g \<Longrightarrow>
   map g (friendlyDrones (fst (rescueStep i k sp))) = map g (friendlyDrones (fst sp))"
  by (simp add: rescueStep_def Let_def split_beta setFriendly_map moveTo_ignored ignoresD
        split: option.splits del: set_proj_list)

lemma rescueLoop_others [simp]:
  "hostileDrones (fst (rescueLoop i s)) = hostileDrones s"
  "groundAssets (fst (rescueLoop i s)) = groundAssets s"
  "particles (fst (rescueLoop i s)) = particles s"
  "reads (fst (rescueLoop i s)) = reads s"
  "draws (fst (rescueLoop i s)) = draws s"
  unfolding rescueLoop_def
  by (simp_all add: fold_frame[where p = "\<lambda>sp. hostileDrones (fst sp)"]
        fold_frame[where p = "\<lambda>sp. groundAssets (fst sp)"]
        fold_frame[where p = "\<lambda>sp. particles (fst sp)"]
        fold_frame[where p = "\<lambda>sp. reads (fst sp)"]
        fold_frame[where p = "\<lambda>sp. draws (fst sp)"])

lemma rescueLoop_friendlies:
  assumes "ignoresMotion g" "ignores lostCoords_update g"
  shows "map g (friendlyDrones (fst (rescueLoop i s))) = map g (friendlyDrones s)"
  unfolding rescueLoop_def
  using fold_frame[where p = "\<lambda>sp. map g (friendlyDrones (fst sp))" and f = "rescueStep i",
          OF rescueStep_friendlies[OF assms]]
  by simp

lemma markLost_others [simp]:
  "hostileDrones (markLost i s) = hostileDrones s"
  "groundAssets (markLost i s) = groundAssets s"
  "particles (markLost i s) = particles s"
  "reads (markLost i s) = reads s"
  "draws (markLost i s) = draws s"
  by (simp_all add: markLost_def Let_def)

lemma markLost_friendlies:
  "ignores lostCoords_update g \<Longrightarrow> map g (friendlyDrones (markLost i s)) = map g (friendlyDrones s)"
  by (simp add: markLost_def Let_def setFriendly_map ignoresD del: set_proj_list)

lemma nonInc_refl [simp]: "nonInc xs xs"
  by (simp add: nonInc_def list_all2_refl)

lemma nonInc_trans: "nonInc xs ys \<Longrightarrow> nonInc ys zs \<Longrightarrow> nonInc xs zs"
  using list_all2_trans[of "\<lambda>a b. b \<le> a" "\<lambda>a b. b \<le> a" "\<lambda>a b. b \<le> a" xs ys zs]
  by (auto simp: nonInc_def)

lemma nonInc_update:
  "g y \<le> g (xs ! i) \<Longrightarrow> nonInc (map g xs) (map g (xs[i := y]))"
  by (cases "i < length xs")
     (auto simp: nonInc_def list_all2_conv_all_nth nth_list_update list_update_beyond)

lemma nonInc_fold:
  assumes "\<And>x s. nonInc (p s) (p (f x s))"
  shows "nonInc (p s) (p (fold f xs s))"
proof (induction xs arbitrary: s)
  case Nil
  show ?case by simp
next
  case (Cons x xs)
  show ?case using nonInc_trans[OF assms[of s x] Cons.IH[of "f x s"]] by simp
qed

subsection \<open>fireAt by a friendly on a hostile\<close>

lemma fireAt_by_friendly_friendlies:
  "ignores lastFired_update g \<Longrightarrow>
   map g (friendlyDrones (fireAt (Friendly i) (DroneT (Hostile j)) c damage s))
     = map g (friendlyDrones s)"
  by (cases "clock s (reads s) - lastFired (getDrone s (Friendly i)) < 100")
     (simp_all add: fireAt_blocked fireAt_fires Let_def setFriendly_map ignoresD
        del: set_proj_list)

lemma fireAt_by_friendly_hostiles:
  "ignores health_d_update g \<Longrightarrow>
   map g (hostileDrones (fireAt (Friendly i) (DroneT (Hostile j)) c damage s))
     = map g (hostileDrones s)"
  by (cases "clock s (reads s) - lastFired (getDrone s (Friendly i)) < 100")
     (simp_all add: fireAt_blocked fireAt_fires Let_def setHostile_map ignoresD
        del: set_proj_list)

lemma fireAt_by_friendly_health:
  "0 \<le> damage \<Longrightarrow>
   nonInc (map health_d (hostileDrones s))
     (map health_d (hostileDrones (fireAt (Friendly i) (DroneT (Hostile j)) c damage s)))"
  by (cases "clock s (reads s) - lastFired (getDrone s (Friendly i)) < 100")
     (simp_all add: fireAt_blocked fireAt_fires Let_def nonInc_update)

subsection \<open>Defence and patrol\<close>

lemma maintainDefensivePosition_others [simp]:
  "hostileDrones (maintainDefensivePosition i s) = hostileDrones s"
  "groundAssets (maintainDefensivePosition i s) = groundAssets s"
  "particles (maintainDefensivePosition i s) = particles s"
  "reads (maintainDefensivePosition i s) = reads s"
  by (simp_all add: maintainDefensivePosition_def Let_def)

lemma maintainDefensivePosition_friendlies:
  "ignoresMotion g \<Longrightarrow>
   map g (friendlyDrones (maintainDefensivePosition i s)) = map g (friendlyDrones s)"
  by (simp add: maintainDefensivePosition_def Let_def setFriendly_map moveTo_ignored
        del: set_proj_list)

lemma applySeparation_others [simp]:
  "hostileDrones (applySeparation i sd s) = hostileDrones s"
  "groundAssets (applySeparation i sd s) = groundAssets s"
  "particles (applySeparation i sd s) = particles s"
  "reads (applySeparation i sd s) = reads s"
  by (simp_all add: applySeparation_def Let_def split_beta)

lemma applySeparation_friendlies:
  "ignoresMotion g \<Longrightarrow> map g (friendlyDrones (applySeparation i sd s)) = map g (friendlyDrones s)"
  by (simp add: applySeparation_def Let_def split_beta setFriendly_map ignoresMotionD
        del: set_proj_list)

lemma patrolPosition_others [simp]:
  "hostileDrones (patrolPosition i formation s) = hostileDrones s"
  "groundAssets (patrolPosition i formation s) = groundAssets s"
  "particles (patrolPosition i formation s) = particles s"
  "reads (patrolPosition i formation s) = reads s"
  by (simp_all add: patrolPosition_def Let_def split: option.splits)

lemma patrolPosition_friendlies:
  "ignoresMotion g \<Longrightarrow>
   map g (friendlyDrones (patrolPosition i formation s)) = map g (friendlyDrones s)"
  by (simp add: patrolPosition_def Let_def applySeparation_friendlies setFriendly_map
        moveTo_ignored split: option.splits del: set_proj_list)

subsection \<open>Jamming\<close>

lemma jamParticle_proj [simp]:
  "friendlyDrones (jamParticle hp s) = friendlyDrones s"
  "hostileDrones (jamParticle hp s) = hostileDrones s"
  "groundAssets (jamParticle hp s) = groundAssets s"
  "reads (jamParticle hp s) = reads s"
  by (simp_all add: jamParticle_def Let_def)

lemma jamStep_others [simp]:
  "groundAssets (jamStep i j s) = groundAssets s"
  "reads (jamStep i j s) = reads s"
  by (simp_all add: jamStep_def mathRandom_def Let_def)

lemma jamStep_friendlies:
  "ignores jammingTargets_update g \<Longrightarrow>
   map g (friendlyDrones (jamStep i j s)) = map g (friendlyDrones s)"
  by (simp add: jamStep_def mathRandom_def Let_def setFriendly_map ignoresD del: set_proj_list)

lemma jamStep_hostiles:
  "ignores isJammed_update g \<Longrightarrow> ignores health_d_update g \<Longrightarrow>
   map g (hostileDrones (jamStep i j s)) = map g (hostileDrones s)"
  by (simp add: jamStep_def mathRandom_def Let_def setHostile_map ignoresD del: set_proj_list)

lemma jamStep_health:
  "nonInc (map health_d (hostileDrones s)) (map health_d (hostileDrones (jamStep i j s)))"
  by (simp add: jamStep_def mathRandom_def Let_def nonInc_update nth_update_frame[where g = health_d])

lemma jamming_others [simp]:
  "groundAssets (jamming i s) = groundAssets s"
  "reads (jamming i s) = reads s"
  unfolding jamming_def
  by (simp_all add: fold_frame[where p = groundAssets] fold_frame[where p = reads])

lemma jamming_friendlies:
  assumes "ignores jammingTargets_update g"
  shows "map g (friendlyDrones (jamming i s)) = map g (friendlyDrones s)"
  unfolding jamming_def
  by (rule fold_frame[where p = "\<lambda>s. map g (friendlyDrones s)"]) (rule jamStep_friendlies[OF assms])

lemma jamming_hostiles:
  assumes "ignores isJammed_update g" "ignores health_d_update g"
  shows "map g (hostileDrones (jamming i s)) = map g (hostileDrones s)"
  unfolding jamming_def
  by (rule fold_frame[where p = "\<lambda>s. map g (hostileDrones s)"]) (rule jamStep_hostiles[OF assms])

lemma jamming_health:
  "nonInc (map health_d (hostileDrones s)) (map health_d (hostileDrones (jamming i s)))"
  unfolding jamming_def
  by (rule nonInc_fold[where p = "\<lambda>s. map health_d (hostileDrones s)"]) (rule jamStep_health)

subsection \<open>The decision logic\<close>

lemma decide_assets [simp]: "groundAssets (decide i hasCommunication formation s) = groundAssets s"
  by (simp add: decide_def engage_def Let_def split: option.splits)

lemma decide_friendlies:
  assumes "ignoresMotion g" "ignores target_update g" "ignores isEngaging_update g"
    "ignores lastFired_update g"
  shows "map g (friendlyDrones (decide i hasCommunication formation s)) = map g (friendlyDrones s)"
  using assms
  by (simp add: decide_def engage_def Let_def fireAt_by_friendly_friendlies maintainDefensivePosition_friendlies
        patrolPosition_friendlies setFriendly_map moveTo_ignored ignoresD
        split: option.splits del: set_proj_list)

lemma decide_hostiles:
  assumes "ignores health_d_update g"
  shows "map g (hostileDrones (decide i hasCommunication formation s)) = map g (hostileDrones s)"
  using assms
  by (simp add: decide_def engage_def Let_def fireAt_by_friendly_hostiles split: option.splits)

lemma decide_health:
  "nonInc (map health_d (hostileDrones s))
     (map health_d (hostileDrones (decide i hasCommunication formation s)))"
proof -
  have "nonInc (map health_d (hostileDrones (setFriendly i f s)))
          (map health_d (hostileDrones
             (fireAt (Friendly i) (DroneT (Hostile j)) c damage (setFriendly i f s))))"
    if "0 \<le> damage" for f j c damage
    using that by (rule fireAt_by_friendly_health)
  then show ?thesis
    by (simp add: decide_def engage_def Let_def split: option.splits)
qed

subsection \<open>The friendly branch of \<open>update\<close>\<close>

lemma updateFriendly_assets [simp]:
  "groundAssets (updateFriendly i hasCommunication jammingEnabled formation s) = groundAssets s"
  by (simp add: updateFriendly_def Let_def split_beta)

lemma updateFriendly_friendlies:
  assumes "friendlyStable g"
  shows "map g (friendlyDrones (updateFriendly i hasCommunication jammingEnabled formation s))
         = map g (friendlyDrones s)"
  using assms
  by (simp add: updateFriendly_def Let_def split_beta friendlyStable_def
        autonomousMode_friendlies decide_friendlies jamming_friendlies markLost_friendlies
        rescueLoop_friendlies setFriendly_map ignoresD del: set_proj_list)

lemma updateFriendly_hostiles:
  assumes "ignores isJammed_update g" "ignores health_d_update g"
  shows "map g (hostileDrones (updateFriendly i hasCommunication jammingEnabled formation s))
         = map g (hostileDrones s)"
  using assms
  by (simp add: updateFriendly_def Let_def split_beta decide_hostiles jamming_hostiles)

lemma updateFriendly_health:
  "nonInc (map health_d (hostileDrones s))
     (map health_d (hostileDrones (updateFriendly i hasCommunication jammingEnabled formation s)))"
proof -
  let ?s0 = "setFriendly i (\<lambda>d. d\<lparr>jammingTargets := []\<rparr>) s"
  let ?s2 = "markLost i (fst (rescueLoop i ?s0))"
  have h2: "hostileDrones ?s2 = hostileDrones s" by simp
  have a: "nonInc (map health_d (hostileDrones ?s2))
          (map health_d (hostileDrones (decide i hc formation (jamming i ?s2))))" for hc
    by (rule nonInc_trans[OF jamming_health decide_health])
  have b: "nonInc (map health_d (hostileDrones ?s2))
          (map health_d (hostileDrones (decide i hc formation ?s2)))" for hc
    by (rule decide_health)
  show ?thesis
    using a b unfolding h2 by (simp add: updateFriendly_def Let_def split_beta)
qed

subsection \<open>fireAt by a hostile\<close>

lemma fireAt_by_hostile_hostiles:
  "ignores lastFired_update g \<Longrightarrow>
   map g (hostileDrones (fireAt (Hostile j) (DroneT (Friendly f)) c damage s)) = map g (hostileDrones s)"
  "ignores lastFired_update g \<Longrightarrow>
   map g (hostileDrones (fireAt (Hostile j) (AssetT k) c damage s)) = map g (hostileDrones s)"
  by (cases "clock s (reads s) - lastFired (getDrone s (Hostile j)) < 100";
      simp add: fireAt_blocked fireAt_fires Let_def setHostile_map ignoresD del: set_proj_list)+

lemma fireAt_by_hostile_friendlies:
  "ignores health_d_update g \<Longrightarrow>
   map g (friendlyDrones (fireAt (Hostile j) (DroneT (Friendly f)) c damage s)) = map g (friendlyDrones s)"
  by (cases "clock s (reads s) - lastFired (getDrone s (Hostile j)) < 100")
     (simp_all add: fireAt_blocked fireAt_fires Let_def setFriendly_map ignoresD del: set_proj_list)

lemma fireAt_by_hostile_friendly_health:
  "0 \<le> damage \<Longrightarrow>
   nonInc (map health_d (friendlyDrones s))
     (map health_d (friendlyDrones (fireAt (Hostile j) (DroneT (Friendly f)) c damage s)))"
  by (cases "clock s (reads s) - lastFired (getDrone s (Hostile j)) < 100")
     (simp_all add: fireAt_blocked fireAt_fires Let_def nonInc_update)

lemma fireAt_by_hostile_assets:
  "(\<And>a v. g (a\<lparr>health_a := v\<rparr>) = g a) \<Longrightarrow>
   map g (groundAssets (fireAt (Hostile j) (AssetT k) c damage s)) = map g (groundAssets s)"
  by (cases "clock s (reads s) - lastFired (getDrone s (Hostile j)) < 100")
     (simp_all add: fireAt_blocked fireAt_fires Let_def setAsset_map del: set_proj_list)

lemma fireAt_by_hostile_asset_health:
  "0 \<le> damage \<Longrightarrow>
   nonInc (map health_a (groundAssets s))
     (map health_a (groundAssets (fireAt (Hostile j) (AssetT k) c damage s)))"
  by (cases "clock s (reads s) - lastFired (getDrone s (Hostile j)) < 100")
     (simp_all add: fireAt_blocked fireAt_fires Let_def nonInc_update)

subsection \<open>The hostile branch, collection by collection\<close>

lemma movementLogic_hostiles:
  "ignoresMotion g \<Longrightarrow>
   map g (hostileDrones (movementLogic j speed na nf s)) = map g (hostileDrones s)"
  by (simp add: movementLogic_def setHostile_map moveTo_ignored split: option.splits
        del: set_proj_list)

lemma combatLogic_hostiles:
  "ignoresMotion g \<Longrightarrow> ignores lastFired_update g \<Longrightarrow>
   map g (hostileDrones (combatLogic j speed na nf s)) = map g (hostileDrones s)"
  by (simp add: combatLogic_def Let_def fireAt_by_hostile_hostiles setHostile_map moveTo_ignored
        split: option.splits del: set_proj_list)

lemma combatLogic_friendlies:
  "ignores health_d_update g \<Longrightarrow>
   map g (friendlyDrones (combatLogic j speed na nf s)) = map g (friendlyDrones s)"
  by (simp add: combatLogic_def Let_def fireAt_by_hostile_friendlies split: option.splits)

lemma combatLogic_friendly_health:
  "nonInc (map health_d (friendlyDrones s))
     (map health_d (friendlyDrones (combatLogic j speed na nf s)))"
  by (simp add: combatLogic_def Let_def fireAt_by_hostile_friendly_health split: option.splits)

lemma combatLogic_assets:
  "(\<And>a v. g (a\<lparr>health_a := v\<rparr>) = g a) \<Longrightarrow>
   map g (groundAssets (combatLogic j speed na nf s)) = map g (groundAssets s)"
  by (simp add: combatLogic_def Let_def fireAt_by_hostile_assets split: option.splits)

lemma combatLogic_asset_health:
  "nonInc (map health_a (groundAssets s))
     (map health_a (groundAssets (combatLogic j speed na nf s)))"
  by (simp add: combatLogic_def Let_def fireAt_by_hostile_asset_health split: option.splits)

lemma updateHostile_hostiles:
  "hostileStable g \<Longrightarrow> map g (hostileDrones (updateHostile j s)) = map g (hostileDrones s)"
  by (simp add: updateHostile_def Let_def hostileStable_def movementLogic_hostiles
        combatLogic_hostiles setHostile_map ignoresD del: set_proj_list)

lemma updateHostile_friendlies:
  "ignores health_d_update g \<Longrightarrow>
   map g (friendlyDrones (updateHostile j s)) = map g (friendlyDrones s)"
  by (simp add: updateHostile_def Let_def combatLogic_friendlies)

lemma updateHostile_friendly_health:
  "nonInc (map health_d (friendlyDrones s)) (map health_d (friendlyDrones (updateHostile j s)))"
  using combatLogic_friendly_health[of "setHostile j (\<lambda>d. d\<lparr>jammingTargets := []\<rparr>) s" j]
  by (simp add: updateHostile_def Let_def)

lemma updateHostile_assets:
  "(\<And>a v. g (a\<lparr>health_a := v\<rparr>) = g a) \<Longrightarrow>
   map g (groundAssets (updateHostile j s)) = map g (groundAssets s)"
  by (simp add: updateHostile_def Let_def combatLogic_assets)

lemma updateHostile_asset_health:
  "nonInc (map health_a (groundAssets s)) (map health_a (groundAssets (updateHostile j s)))"
  using combatLogic_asset_health[of "setHostile j (\<lambda>d. d\<lparr>jammingTargets := []\<rparr>) s" j]
  by (simp add: updateHostile_def Let_def)

lemma ignores_health_d [simp]:
  "ignoresMotion health_d" "ignores lostCoords_update health_d"
  "ignores jammingTargets_update health_d" "ignores target_update health_d"
  "ignores isEngaging_update health_d" "ignores lastFired_update health_d"
  "friendlyStable health_d" "hostileStable health_d" "ignores isJammed_update health_d"
  by (simp_all add: friendlyStable_def hostileStable_def ignoresMotion_def ignores_def)

lemma ignores_unit [simp]:
  "friendlyStable (\<lambda>d. ())" "hostileStable (\<lambda>d. ())" "ignores upd (\<lambda>d. ())"
  by (simp_all add: friendlyStable_def hostileStable_def ignoresMotion_def ignores_def)

lemma map_unit_length: "map (\<lambda>d. ()) xs = map (\<lambda>d. ()) ys \<Longrightarrow> length xs = length ys"
  by (rule map_eq_imp_length_eq)

subsection \<open>The passes of a tick\<close>

lemma ageParticles_proj [simp]:
  "friendlyDrones (ageParticles s) = friendlyDrones s"
  "hostileDrones (ageParticles s) = hostileDrones s"
  "groundAssets (ageParticles s) = groundAssets s"
  "destroyedAssets (ageParticles s) = destroyedAssets s"
  by (simp_all add: ageParticles_def)

lemma clearJammed_proj [simp]:
  "friendlyDrones (clearJammed s) = friendlyDrones s"
  "groundAssets (clearJammed s) = groundAssets s"
  "destroyedAssets (clearJammed s) = destroyedAssets s"
  "map health_d (hostileDrones (clearJammed s)) = map health_d (hostileDrones s)"
  "length (hostileDrones (clearJammed s)) = length (hostileDrones s)"
  by (simp_all add: clearJammed_def)

lemma friendlyPrefix_friendlies:
  assumes "friendlyStable g"
  shows "map g (friendlyDrones (fold (\<lambda>i. update (Friendly i) c jm fm) is s))
         = map g (friendlyDrones s)"
  by (rule fold_frame[where p = "\<lambda>s. map g (friendlyDrones s)"])
     (simp add: updateFriendly_friendlies[OF assms])

lemma friendlyPass_friendlies:
  "friendlyStable g \<Longrightarrow> map g (friendlyDrones (friendlyPass c jm fm s)) = map g (friendlyDrones s)"
  unfolding friendlyPass_def by (rule friendlyPrefix_friendlies)

lemma friendlyPass_assets [simp]: "groundAssets (friendlyPass c jm fm s) = groundAssets s"
  unfolding friendlyPass_def by (rule fold_frame[where p = groundAssets]) simp

lemma friendlyPass_health:
  "nonInc (map health_d (hostileDrones s)) (map health_d (hostileDrones (friendlyPass c jm fm s)))"
  unfolding friendlyPass_def
  by (rule nonInc_fold[where p = "\<lambda>s. map health_d (hostileDrones s)"])
     (simp add: updateFriendly_health)

lemma hostileStep_hostiles:
  "hostileStable g \<Longrightarrow> map g (hostileDrones (hostileStep c jm fm j s)) = map g (hostileDrones s)"
  by (simp add: hostileStep_def updateHostile_hostiles)

lemma hostilePass_hostiles:
  "hostileStable g \<Longrightarrow> map g (hostileDrones (hostilePass c jm fm s)) = map g (hostileDrones s)"
  unfolding hostilePass_def
  by (rule fold_frame[where p = "\<lambda>s. map g (hostileDrones s)"]) (rule hostileStep_hostiles)

lemma hostilePass_friendly_health:
  "nonInc (map health_d (friendlyDrones s)) (map health_d (friendlyDrones (hostilePass c jm fm s)))"
  unfolding hostilePass_def
  by (rule nonInc_fold[where p = "\<lambda>s. map health_d (friendlyDrones s)"])
     (simp add: hostileStep_def updateHostile_friendly_health)

lemma hostilePass_asset_health:
  "nonInc (map health_a (groundAssets s)) (map health_a (groundAssets (hostilePass c jm fm s)))"
  unfolding hostilePass_def
  by (rule nonInc_fold[where p = "\<lambda>s. map health_a (groundAssets s)"])
     (simp add: hostileStep_def updateHostile_asset_health)

lemma updatePhase_health:
  "nonInc (map health_d (friendlyDrones s)) (map health_d (friendlyDrones (updatePhase c jm fm s)))"
  "nonInc (map health_d (hostileDrones s)) (map health_d (hostileDrones (updatePhase c jm fm s)))"
  "nonInc (map health_a (groundAssets s)) (map health_a (groundAssets (updatePhase c jm fm s)))"
proof -
  let ?t = "clearJammed (ageParticles s)"
  let ?u = "friendlyPass c jm fm ?t"
  have "map health_d (friendlyDrones ?u) = map health_d (friendlyDrones s)"
    by (simp add: friendlyPass_friendlies)
  then show "nonInc (map health_d (friendlyDrones s))
               (map health_d (friendlyDrones (updatePhase c jm fm s)))"
    using hostilePass_friendly_health[of ?u c jm fm] by (simp add: updatePhase_def)
  have "nonInc (map health_d (hostileDrones s)) (map health_d (hostileDrones ?u))"
    using friendlyPass_health[of ?t c jm fm] by simp
  then show "nonInc (map health_d (hostileDrones s))
               (map health_d (hostileDrones (updatePhase c jm fm s)))"
    by (simp add: updatePhase_def hostilePass_hostiles)
  show "nonInc (map health_a (groundAssets s)) (map health_a (groundAssets (updatePhase c jm fm s)))"
    using hostilePass_asset_health[of ?u c jm fm] by (simp add: updatePhase_def)
qed

lemma createExplosion_proj [simp]:
  "friendlyDrones (createExplosion x y c scale s) = friendlyDrones s"
  "hostileDrones (createExplosion x y c scale s) = hostileDrones s"
  "groundAssets (createExplosion x y c scale s) = groundAssets s"
  "destroyedAssets (createExplosion x y c scale s) = destroyedAssets s"
  "friendlyLosses (createExplosion x y c scale s) = friendlyLosses s"
  "reads (createExplosion x y c scale s) = reads s"
  "clock (createExplosion x y c scale s) = clock s"
  "random (createExplosion x y c scale s) = random s"
proof -
  have *: "p ((explosionParticle x y c scale ^^ n) s) = p s"
    if "\<And>s. p (explosionParticle x y c scale s) = p s" for p :: "Sim \<Rightarrow> 'a" and n
    by (induction n) (simp_all add: that)
  show "friendlyDrones (createExplosion x y c scale s) = friendlyDrones s"
    "hostileDrones (createExplosion x y c scale s) = hostileDrones s"
    "groundAssets (createExplosion x y c scale s) = groundAssets s"
    "destroyedAssets (createExplosion x y c scale s) = destroyedAssets s"
    "friendlyLosses (createExplosion x y c scale s) = friendlyLosses s"
    "reads (createExplosion x y c scale s) = reads s"
    "clock (createExplosion x y c scale s) = clock s"
    "random (createExplosion x y c scale s) = random s"
    unfolding createExplosion_def
    by (rule *; simp add: explosionParticle_def Let_def)+
qed

lemma casualties_proj:
  "friendlyDrones (updateSimulation c jm fm s)
     = filter (\<lambda>d. health_d d > 0) (friendlyDrones (updatePhase c jm fm s))"
  "hostileDrones (updateSimulation c jm fm s)
     = filter (\<lambda>d. health_d d > 0) (hostileDrones (updatePhase c jm fm s))"
  "groundAssets (updateSimulation c jm fm s)
     = filter (\<lambda>a. health_a a > 0) (groundAssets (updatePhase c jm fm s))"
  by (simp_all add: updateSimulation_def deadHostiles_def deadAssets_def deadFriendlies_def Let_def
        fold_frame[where p = friendlyDrones] fold_frame[where p = hostileDrones]
        fold_frame[where p = groundAssets])

lemma ignores_id_d [simp]:
  "friendlyStable id_d" "hostileStable id_d" "ignores isJammed_update id_d"
  "ignores health_d_update id_d"
  by (simp_all add: friendlyStable_def hostileStable_def ignoresMotion_def ignores_def)

lemma nonInc_nth:
  "nonInc (map g xs) (map g ys) \<longleftrightarrow>
     length ys = length xs \<and> (\<forall>i<length xs. g (ys ! i) \<le> g (xs ! i))"
  by (auto simp: nonInc_def list_all2_conv_all_nth)

lemma hostilePass_friendlies:
  "ignores health_d_update g \<Longrightarrow>
   map g (friendlyDrones (hostilePass c jm fm s)) = map g (friendlyDrones s)"
  unfolding hostilePass_def
  by (rule fold_frame[where p = "\<lambda>s. map g (friendlyDrones s)"])
     (simp add: hostileStep_def updateFriendly_friendlies updateHostile_friendlies)

lemma friendlyPass_hostiles:
  assumes "ignores isJammed_update g" "ignores health_d_update g"
  shows "map g (hostileDrones (friendlyPass c jm fm s)) = map g (hostileDrones s)"
  unfolding friendlyPass_def
  by (rule fold_frame[where p = "\<lambda>s. map g (hostileDrones s)"])
     (simp add: updateFriendly_hostiles[OF assms])

lemma updatePhase_ids:
  "map id_d (friendlyDrones (updatePhase c jm fm s)) = map id_d (friendlyDrones s)"
  "map id_d (hostileDrones (updatePhase c jm fm s)) = map id_d (hostileDrones s)"
  by (simp_all add: updatePhase_def hostilePass_friendlies friendlyPass_friendlies
        hostilePass_hostiles friendlyPass_hostiles clearJammed_def o_def)

lemma friendly_alive_when_updated:
  assumes "\<forall>d\<in>set (friendlyDrones s). 0 < health_d d" and "i < length (friendlyDrones s)"
  shows "0 < health_d (friendlyDrones
                (fold (\<lambda>i. update (Friendly i) c jm fm) is (clearJammed (ageParticles s))) ! i)"
proof -
  let ?t = "fold (\<lambda>i. update (Friendly i) c jm fm) is (clearJammed (ageParticles s))"
  have m: "map health_d (friendlyDrones ?t) = map health_d (friendlyDrones s)"
    by (simp add: friendlyPrefix_friendlies)
  then have "length (friendlyDrones ?t) = length (friendlyDrones s)"
    by (rule map_eq_imp_length_eq)
  with m assms(2) have "health_d (friendlyDrones ?t ! i) = health_d (friendlyDrones s ! i)"
    by (metis nth_map)
  with assms show ?thesis by simp
qed

subsection \<open>Running a tick on a concrete state\<close>

lemmas tick_defs = updatePhase_def friendlyPass_def hostilePass_def hostileStep_def
  updateFriendly_def autonomousMode_def mathRandom_def rescueLoop_def rescueStep_def markLost_def
  jamming_def jamStep_def jamParticle_def decide_def engage_def selectTarget_def calculateThreatScore_def
  isCriticalThreat_def shouldEngage_def engagementRatio_def othersTargeting_def jsdiv_def
  friendlyBombersExist_def maintainDefensivePosition_def patrolPosition_def patrolSlot_def
  applySeparation_def sepStep_def centerX_def centerY_def clearJammed_def ageParticles_def
  THREATENING_RANGE_def JAMMING_RANGE_def DRONE_SPEED_def

subsection \<open>The jamming loop, hostile by hostile\<close>

lemma map_eq_nth: "map g xs' = map g xs \<Longrightarrow> k < length xs \<Longrightarrow> g (xs' ! k) = g (xs ! k)"
  by (metis length_map nth_map)

lemma ignores_pos_d [simp]:
  "ignores isJammed_update pos_d" "ignores health_d_update pos_d"
  "ignores jammingTargets_update pos_d"
  "ignores jammingTargets_update (\<lambda>d. calculateDistance d p)"
  by (simp_all add: ignores_def pos_d_def calculateDistance_def)

lemma jamStep_exact:
  assumes "k < length (hostileDrones s)"
  shows "health_d (hostileDrones (jamStep i j s) ! k) =
     (if k = j \<and> 0 < health_d (hostileDrones s ! j)
         \<and> calculateDistance (friendlyDrones s ! i) (pos_d (hostileDrones s ! j)) \<le> JAMMING_RANGE
      then health_d (hostileDrones s ! j) - 1 / 10
      else health_d (hostileDrones s ! k))"
  using assms by (simp add: jamStep_def mathRandom_def Let_def nth_list_update)

lemma jamStep_length [simp]:
  "length (hostileDrones (jamStep i j s)) = length (hostileDrones s)"
  "length (friendlyDrones (jamStep i j s)) = length (friendlyDrones s)"
  by (simp_all add: jamStep_def mathRandom_def Let_def)

lemma jamStep_distance:
  assumes "k < length (hostileDrones s)" "i < length (friendlyDrones s)"
  shows "calculateDistance (friendlyDrones (jamStep i j s) ! i) (pos_d (hostileDrones (jamStep i j s) ! k))
         = calculateDistance (friendlyDrones s ! i) (pos_d (hostileDrones s ! k))"
proof -
  have "pos_d (hostileDrones (jamStep i j s) ! k) = pos_d (hostileDrones s ! k)"
    by (rule map_eq_nth[OF jamStep_hostiles[of pos_d i j s] assms(1)]) simp_all
  moreover have "calculateDistance (friendlyDrones (jamStep i j s) ! i) p
                 = calculateDistance (friendlyDrones s ! i) p" for p
    by (rule map_eq_nth[OF jamStep_friendlies[of "\<lambda>d. calculateDistance d p" i j s] assms(2)])
       simp
  ultimately show ?thesis by simp
qed

lemma jamLoop_exact:
  assumes "distinct js" "k < length (hostileDrones s)" "i < length (friendlyDrones s)"
  shows "health_d (hostileDrones (fold (jamStep i) js s) ! k) =
     (if k \<in> set js \<and> 0 < health_d (hostileDrones s ! k)
         \<and> calculateDistance (friendlyDrones s ! i) (pos_d (hostileDrones s ! k)) \<le> JAMMING_RANGE
      then health_d (hostileDrones s ! k) - 1 / 10
      else health_d (hostileDrones s ! k))"
  using assms
proof (induction js arbitrary: s)
  case Nil
  then show ?case by simp
next
  case (Cons j js)
  let ?s1 = "jamStep i j s"
  have d: "distinct js" and nj: "j \<notin> set js" using Cons.prems(1) by simp_all
  have k1: "k < length (hostileDrones ?s1)" and i1: "i < length (friendlyDrones ?s1)"
    using Cons.prems by simp_all
  note ih = Cons.IH[OF d k1 i1]
  note ex = jamStep_exact[OF Cons.prems(2), of i j]
  note di = jamStep_distance[OF Cons.prems(2) Cons.prems(3), of j]
  show ?case
  proof (cases "k = j")
    case True
    with nj have "k \<notin> set js" by simp
    then show ?thesis using ih ex True by simp
  next
    case False
    then show ?thesis using ih ex di by simp
  qed
qed

lemma jamming_exact:
  assumes "k < length (hostileDrones s)" "i < length (friendlyDrones s)"
  shows "health_d (hostileDrones (jamming i s) ! k) =
     (if 0 < health_d (hostileDrones s ! k)
         \<and> calculateDistance (friendlyDrones s ! i) (pos_d (hostileDrones s ! k)) \<le> JAMMING_RANGE
      then health_d (hostileDrones s ! k) - 1 / 10
      else health_d (hostileDrones s ! k))"
  unfolding jamming_def using jamLoop_exact[OF _ assms, of "[0..<length (hostileDrones s)]"] assms(1)
  by simp

lemma jamming_distance:
  assumes "k < length (hostileDrones s)" "i < length (friendlyDrones s)"
  shows "calculateDistance (friendlyDrones (jamming a s) ! i) (pos_d (hostileDrones (jamming a s) ! k))
         = calculateDistance (friendlyDrones s ! i) (pos_d (hostileDrones s ! k))"
proof -
  have "pos_d (hostileDrones (jamming a s) ! k) = pos_d (hostileDrones s ! k)"
    by (rule map_eq_nth[OF jamming_hostiles[of pos_d a s] assms(1)]) simp_all
  moreover have "calculateDistance (friendlyDrones (jamming a s) ! i) p
                 = calculateDistance (friendlyDrones s ! i) p" for p
    by (rule map_eq_nth[OF jamming_friendlies[of "\<lambda>d. calculateDistance d p" a s] assms(2)])
       simp
  ultimately show ?thesis by simp
qed

lemma jamming_length [simp]:
  "length (hostileDrones (jamming i s)) = length (hostileDrones s)"
  "length (friendlyDrones (jamming i s)) = length (friendlyDrones s)"
  by (rule map_unit_length, simp add: jamming_hostiles jamming_friendlies)+

subsection \<open>Selection of the target\<close>

lemma firstBest_index:
  "firstBest better k vs best = Some (j, v) \<Longrightarrow>
   best = Some (j, v) \<or> (k \<le> j \<and> j < k + length vs)"
proof (induction vs arbitrary: k best)
  case Nil
  then show ?case by simp
next
  case (Cons a vs)
  from Cons.IH[OF Cons.prems[simplified]] show ?case
    by (auto split: option.splits if_splits)
qed

lemma firstBest_None: "firstBest better k vs best = None \<longleftrightarrow> vs = [] \<and> best = None"
  by (induction vs arbitrary: k best) (auto split: option.splits)

lemma selectTarget_index:
  "selectTarget i hc s = Some (j, v) \<Longrightarrow> j < length (hostileDrones s)"
  unfolding selectTarget_def by (drule firstBest_index) simp

lemma selectTarget_None: "selectTarget i hc s = None \<longleftrightarrow> hostileDrones s = []"
  by (simp add: selectTarget_def firstBest_None)

lemma decide_chosen:
  assumes "ignoresMotion g" "ignores lastFired_update g"
  shows "map g (friendlyDrones (decide i hc fm s))
         = map g (friendlyDrones (setFriendly i (chosen i hc s) s))"
  using assms
  by (simp add: decide_def engage_def chosen_def Let_def fireAt_by_friendly_friendlies
        maintainDefensivePosition_friendlies patrolPosition_friendlies setFriendly_map
        moveTo_ignored split: option.splits del: set_proj_list)

lemma ignores_target [simp]:
  "ignoresMotion target" "ignores lastFired_update target" "ignores lostCoords_update target"
  "ignores jammingTargets_update target"
  "ignoresMotion isEngaging" "ignores lastFired_update isEngaging"
  "ignores lostCoords_update isEngaging" "ignores jammingTargets_update isEngaging"
  by (simp_all add: ignoresMotion_def ignores_def)

lemma decide_target:
  assumes "i < length (friendlyDrones s)"
  shows "target (friendlyDrones (decide i hc fm s) ! i) = target (chosen i hc s (friendlyDrones s ! i))"
    and "isEngaging (friendlyDrones (decide i hc fm s) ! i)
         = isEngaging (chosen i hc s (friendlyDrones s ! i))"
proof -
  have len: "i < length (friendlyDrones (setFriendly i (chosen i hc s) s))" using assms by simp
  show "target (friendlyDrones (decide i hc fm s) ! i) = target (chosen i hc s (friendlyDrones s ! i))"
    using map_eq_nth[OF decide_chosen[of target i hc fm s] len] assms by simp
  show "isEngaging (friendlyDrones (decide i hc fm s) ! i)
         = isEngaging (chosen i hc s (friendlyDrones s ! i))"
    using map_eq_nth[OF decide_chosen[of isEngaging i hc fm s] len] assms by simp
qed

subsection \<open>The three modes of the friendly branch\<close>

lemma updateFriendly_modes:
  "updateFriendly i False jm fm s = autonomousMode i (setFriendly i (\<lambda>d. d\<lparr>jammingTargets := []\<rparr>) s)"
  "performsRescue i s \<Longrightarrow>
   updateFriendly i True jm fm s
     = markLost i (fst (rescueLoop i (setFriendly i (\<lambda>d. d\<lparr>jammingTargets := []\<rparr>) s)))"
  "\<not> performsRescue i s \<Longrightarrow>
   updateFriendly i True jm fm s = decide i True fm (beforeDecision i jm s)"
  by (simp_all add: updateFriendly_def performsRescue_def beforeDecision_def Let_def split_beta)

lemma beforeDecision_friendlies:
  "ignores lostCoords_update g \<Longrightarrow> ignores jammingTargets_update g \<Longrightarrow> ignoresMotion g \<Longrightarrow>
   map g (friendlyDrones (beforeDecision i jm s)) = map g (friendlyDrones s)"
  by (simp add: beforeDecision_def Let_def jamming_friendlies markLost_friendlies
        rescueLoop_friendlies setFriendly_map ignoresD del: set_proj_list)

lemma beforeDecision_hostiles:
  "ignores isJammed_update g \<Longrightarrow> ignores health_d_update g \<Longrightarrow>
   map g (hostileDrones (beforeDecision i jm s)) = map g (hostileDrones s)"
  by (simp add: beforeDecision_def Let_def jamming_hostiles)

lemma ignoresMotion_unit [simp]: "ignoresMotion (\<lambda>d. ())"
  by (simp add: ignoresMotion_def)

lemma target_kept:
  assumes "i < length (friendlyDrones s)"
  shows "target (friendlyDrones (updateFriendly i False jm fm s) ! i) = target (friendlyDrones s ! i)"
    and "performsRescue i s \<Longrightarrow>
         target (friendlyDrones (updateFriendly i True jm fm s) ! i) = target (friendlyDrones s ! i)"
proof -
  have "map target (friendlyDrones (updateFriendly i False jm fm s)) = map target (friendlyDrones s)"
    by (simp add: updateFriendly_modes autonomousMode_friendlies setFriendly_map del: set_proj_list)
  then show "target (friendlyDrones (updateFriendly i False jm fm s) ! i) = target (friendlyDrones s ! i)"
    using assms by (rule map_eq_nth)
  assume "performsRescue i s"
  then have "map target (friendlyDrones (updateFriendly i True jm fm s)) = map target (friendlyDrones s)"
    by (simp add: updateFriendly_modes markLost_friendlies rescueLoop_friendlies setFriendly_map
          del: set_proj_list)
  then show "target (friendlyDrones (updateFriendly i True jm fm s) ! i) = target (friendlyDrones s ! i)"
    using assms by (rule map_eq_nth)
qed

lemma target_selected:
  assumes i: "i < length (friendlyDrones s)" and nr: "\<not> performsRescue i s"
  shows "(hostileDrones s = []
          \<and> target (friendlyDrones (updateFriendly i True jm fm s) ! i) = None
          \<and> \<not> isEngaging (friendlyDrones (updateFriendly i True jm fm s) ! i))
       \<or> (\<exists>j<length (hostileDrones (updateFriendly i True jm fm s)).
             target (friendlyDrones (updateFriendly i True jm fm s) ! i)
               = Some (id_d (hostileDrones (updateFriendly i True jm fm s) ! j))
           \<and> isEngaging (friendlyDrones (updateFriendly i True jm fm s) ! i))"
proof -
  let ?b = "beforeDecision i jm s"
  let ?s' = "updateFriendly i True jm fm s"
  have eq: "?s' = decide i True fm ?b" using nr by (rule updateFriendly_modes)
  have ib: "i < length (friendlyDrones ?b)"
    using i map_unit_length[OF beforeDecision_friendlies[of "\<lambda>d. ()" i jm s]] by simp
  have hb: "length (hostileDrones ?b) = length (hostileDrones s)"
    using map_unit_length[OF beforeDecision_hostiles[of "\<lambda>d. ()" i jm s]] by simp
  have ids: "map id_d (hostileDrones ?s') = map id_d (hostileDrones ?b)"
    unfolding eq by (simp add: decide_hostiles)
  note tg = decide_target[OF ib, of True fm]
  show ?thesis
  proof (cases "selectTarget i True ?b")
    case None
    then have "hostileDrones s = []" using hb by (simp add: selectTarget_None)
    then show ?thesis using tg None by (simp add: eq chosen_def)
  next
    case (Some p)
    obtain j v where p: "p = (j, v)" by (cases p)
    have j: "j < length (hostileDrones ?b)" using Some p by (auto dest: selectTarget_index)
    then have j': "j < length (hostileDrones ?s')"
      using map_eq_imp_length_eq[OF ids] by simp
    have "id_d (hostileDrones ?s' ! j) = id_d (hostileDrones ?b ! j)"
      using map_eq_nth[OF ids j] .
    then show ?thesis using tg Some p j' by (auto simp: eq chosen_def)
  qed
qed

lemma updateSimulation_oracles:
  "random (updateSimulation c jm fm s) = random (updatePhase c jm fm s)"
  "clock (updateSimulation c jm fm s) = clock (updatePhase c jm fm s)"
  "reads (updateSimulation c jm fm s) = reads (updatePhase c jm fm s)"
  by (simp_all add: updateSimulation_def deadHostiles_def deadAssets_def deadFriendlies_def Let_def
        fold_frame[where p = random] fold_frame[where p = clock] fold_frame[where p = reads])

subsection \<open>Target references\<close>

lemma target_not_self:
  assumes i: "i < length (friendlyDrones s)" and nr: "\<not> performsRescue i s"
    and other: "id_d (friendlyDrones s ! i) \<notin> id_d ` set (hostileDrones s)"
  shows "target (friendlyDrones (updateFriendly i True jm fm s) ! i)
         \<noteq> Some (id_d (friendlyDrones (updateFriendly i True jm fm s) ! i))"
proof -
  let ?s' = "updateFriendly i True jm fm s"
  have fi: "id_d (friendlyDrones ?s' ! i) = id_d (friendlyDrones s ! i)"
    by (rule map_eq_nth[OF updateFriendly_friendlies i]) simp
  have hi: "map id_d (hostileDrones ?s') = map id_d (hostileDrones s)"
    by (simp add: updateFriendly_hostiles)
  have mem: "id_d (hostileDrones ?s' ! j) \<in> id_d ` set (hostileDrones s)"
    if "j < length (hostileDrones ?s')" for j
  proof -
    have "id_d (hostileDrones ?s' ! j) \<in> set (map id_d (hostileDrones ?s'))"
      using that by simp
    then show ?thesis unfolding hi by simp
  qed
  show ?thesis
  proof
    assume eq: "target (friendlyDrones ?s' ! i) = Some (id_d (friendlyDrones ?s' ! i))"
    with target_selected[OF i nr, of jm fm]
    obtain j where j: "j < length (hostileDrones ?s')"
      and "id_d (friendlyDrones ?s' ! i) = id_d (hostileDrones ?s' ! j)"
      by auto
    then have "id_d (friendlyDrones s ! i) \<in> id_d ` set (hostileDrones s)"
      using mem[OF j] fi by simp
    with other show False by simp
  qed
qed

text \<open>
  Claim C1, as amended. After the update of a friendly drone in normal mode
  (communication enabled, no rescue move made), its \<open>target\<close> is null, which happens
  exactly when the hostile collection is empty, or refers to a member of the hostile
  collection, and so never to the drone itself when its id is not the id of a hostile:
  a target removed by the last casualty partition is replaced or cleared. When the
  update makes a rescue move, and in autonomous mode (communication disabled), the
  update returns before the decision logic and leaves \<open>target\<close> as it was.
\<close>

theorem target_resolved_in_normal_mode:
  assumes "i < length (friendlyDrones s)"
  shows "(\<not> performsRescue i s \<longrightarrow>
            (hostileDrones s = []
             \<and> target (friendlyDrones (updateFriendly i True jm fm s) ! i) = None)
          \<or> (\<exists>j<length (hostileDrones (updateFriendly i True jm fm s)).
                target (friendlyDrones (updateFriendly i True jm fm s) ! i)
                  = Some (id_d (hostileDrones (updateFriendly i True jm fm s) ! j))))
       \<and> (\<not> performsRescue i s \<and> id_d (friendlyDrones s ! i) \<notin> id_d ` set (hostileDrones s) \<longrightarrow>
            target (friendlyDrones (updateFriendly i True jm fm s) ! i)
              \<noteq> Some (id_d (friendlyDrones (updateFriendly i True jm fm s) ! i)))
       \<and> (performsRescue i s \<longrightarrow>
            target (friendlyDrones (updateFriendly i True jm fm s) ! i)
              = target (friendlyDrones s ! i))
       \<and> target (friendlyDrones (updateFriendly i False jm fm s) ! i) = target (friendlyDrones s ! i)"
  using target_selected[OF assms, of jm fm] target_kept[OF assms, of jm fm]
    target_not_self[OF assms, of jm fm]
  by auto

theorem target_resolved_in_normal_mode_witness:
  "(\<exists>j<length (hostileDrones (updateFriendly 0 True False Circle duelSim)).
      target (friendlyDrones (updateFriendly 0 True False Circle duelSim) ! 0)
        = Some (id_d (hostileDrones (updateFriendly 0 True False Circle duelSim) ! j)))
   \<and> target (friendlyDrones (updateFriendly 0 False False Circle duelSim) ! 0) = None"
proof -
  have "\<not> performsRescue 0 duelSim" "0 < length (friendlyDrones duelSim)"
    "hostileDrones duelSim \<noteq> []" "target (friendlyDrones duelSim ! 0) = None"
    by (simp_all add: performsRescue_def duelSim_def tick_defs eval_defs)
  then show ?thesis
    using target_resolved_in_normal_mode[of 0 duelSim False Circle] by simp
qed

text \<open>
  The claim as stated fails in autonomous mode. In \<open>staleSim\<close> the friendly kills the
  hostile in the first tick, and the partition removes it; the second tick runs with
  communication disabled and the friendly still holds the removed hostile as target.
\<close>

theorem stale_target_counterexample:
  "hostileDrones (updateSimulation True False Circle staleSim) = []
   \<and> map target (friendlyDrones (updateSimulation True False Circle staleSim)) = [Some ''H-1'']
   \<and> hostileDrones (updateSimulation False False Circle
                       (updateSimulation True False Circle staleSim)) = []
   \<and> map target (friendlyDrones (updateSimulation False False Circle
                       (updateSimulation True False Circle staleSim))) = [Some ''H-1'']"
  by (simp add: casualties_proj updateSimulation_oracles staleSim_def tick_defs eval_defs)

subsection \<open>Engagement saturation\<close>

lemma isEngaging_selected:
  assumes "i < length (friendlyDrones s)" "\<not> performsRescue i s" "hostileDrones s \<noteq> []"
  shows "isEngaging (friendlyDrones (updateFriendly i True jm fm s) ! i)"
  using target_selected[OF assms(1,2), of jm fm] assms(3) by auto

lemma shouldEngage_ten:
  assumes "length fs = 10"
  shows "shouldEngage i tgt fs
         \<longleftrightarrow> calculateDistance (fs ! i) (pos_d tgt) < 200 \<or> othersTargeting i tgt fs < 3"
proof -
  have "real (othersTargeting i tgt fs) / 10 < 3 / 10 \<longleftrightarrow> othersTargeting i tgt fs < 3"
    by (simp add: field_simps)
  then show ?thesis
    using assms by (simp add: shouldEngage_def engagementRatio_def jsdiv_def Let_def)
qed

lemma decide_policy:
  assumes "selectTarget i hc s = Some (j, v)"
  shows "decide i hc fm s =
     (let s1 = setFriendly i
                 (\<lambda>d. d\<lparr>target := Some (id_d (hostileDrones s ! j)), isEngaging := True\<rparr>) s
      in if isCriticalThreat (hostileDrones s ! j) (groundAssets s)
            \<or> shouldEngage i (hostileDrones s ! j) (friendlyDrones s1)
         then engage i j s1
         else maintainDefensivePosition i s1)"
  using assms by (simp add: decide_def Let_def)

text \<open>
  Claim C2, as amended. In normal mode a friendly reports \<open>isEngaging\<close> whenever the
  hostile collection is not empty, whatever the engagement policy decides. With a
  roster of 10, the policy \<open>shouldEngage\<close> holds exactly when the drone is less than 200
  away from the target or fewer than 3 other friendlies hold the same target. The
  selected target is pursued or fired on (\<open>engage\<close>) when it is critical or
  \<open>shouldEngage\<close> holds; otherwise the drone keeps the defensive position.
\<close>

theorem engagement_flag_and_policy:
  "(i < length (friendlyDrones s) \<and> \<not> performsRescue i s \<and> hostileDrones s \<noteq> [] \<longrightarrow>
      isEngaging (friendlyDrones (updateFriendly i True jm fm s) ! i))
   \<and> (length fs = 10 \<longrightarrow>
        (shouldEngage k tgt fs
         \<longleftrightarrow> calculateDistance (fs ! k) (pos_d tgt) < 200 \<or> othersTargeting k tgt fs < 3))
   \<and> (selectTarget i hc t = Some (j, v) \<longrightarrow>
        decide i hc fm t =
          (let s1 = setFriendly i
                      (\<lambda>d. d\<lparr>target := Some (id_d (hostileDrones t ! j)), isEngaging := True\<rparr>) t
           in if isCriticalThreat (hostileDrones t ! j) (groundAssets t)
                 \<or> shouldEngage i (hostileDrones t ! j) (friendlyDrones s1)
              then engage i j s1
              else maintainDefensivePosition i s1))"
  using isEngaging_selected[of i s jm fm] shouldEngage_ten[of fs k tgt] decide_policy[of i hc t j v fm]
  by blast

lemma tenSim_facts:
  "\<not> performsRescue 9 tenSim" "length (friendlyDrones tenSim) = 10"
  "selectTarget 9 True tenSim = Some (0, 100 + 50 / 22)"
  "\<not> isCriticalThreat (hostileDrones tenSim ! 0) (groundAssets tenSim)"
  by (simp_all add: performsRescue_def tenSim_def tick_defs eval_defs)

theorem engagement_flag_and_policy_witness:
  "isEngaging (friendlyDrones (updateFriendly 9 True False Circle tenSim) ! 9)
   \<and> shouldEngage 9 (hostileDrones tenSim ! 0) (friendlyDrones tenSim)
   \<and> decide 9 True Circle tenSim =
        engage 9 0 (setFriendly 9 (\<lambda>d. d\<lparr>target := Some ''H-1'', isEngaging := True\<rparr>) tenSim)"
proof -
  have a: "9 < length (friendlyDrones tenSim)" "hostileDrones tenSim \<noteq> []"
    "calculateDistance (friendlyDrones tenSim ! 9) (pos_d (hostileDrones tenSim ! 0)) = 21"
    "id_d (hostileDrones tenSim ! 0) = ''H-1''"
    "calculateDistance
       (friendlyDrones (setFriendly 9 (\<lambda>d. d\<lparr>target := Some ''H-1'', isEngaging := True\<rparr>) tenSim) ! 9)
       (pos_d (hostileDrones tenSim ! 0)) = 21"
    by (simp_all add: tenSim_def eval_defs)
  have b: "shouldEngage 9 (hostileDrones tenSim ! 0)
             (friendlyDrones (setFriendly 9 (\<lambda>d. d\<lparr>target := Some ''H-1'', isEngaging := True\<rparr>) tenSim))"
    using a(5) by (simp add: shouldEngage_def Let_def)
  show ?thesis
    using engagement_flag_and_policy[of 9 tenSim False Circle "friendlyDrones tenSim" 9
            "hostileDrones tenSim ! 0" True tenSim 0 "100 + 50 / 22"]
      tenSim_facts a b
    by (simp add: Let_def)
qed

text \<open>
  The claim as stated fails in \<open>tenSim\<close>: the hostile is 970 away from the only asset,
  so not critical, and after one tick all ten friendlies report \<open>isEngaging\<close> with the
  hostile as target.
\<close>

theorem ten_engaged_counterexample:
  "length (filter (\<lambda>d. isEngaging d \<and> target d = Some ''H-1'')
             (friendlyDrones (updateSimulation True False Circle tenSim))) = 10"
  by (simp add: casualties_proj updateSimulation_oracles tenSim_def tick_defs eval_defs
        real_sqrt_divide)

subsection \<open>Health and removal\<close>

lemma survivors_alive:
  "\<forall>d\<in>set (friendlyDrones (updateSimulation c jm fm s)). 0 < health_d d"
  "\<forall>d\<in>set (hostileDrones (updateSimulation c jm fm s)). 0 < health_d d"
  "\<forall>a\<in>set (groundAssets (updateSimulation c jm fm s)). 0 < health_a a"
  by (simp_all add: casualties_proj)

lemma updatePhase_nth:
  "length (friendlyDrones (updatePhase c jm fm s)) = length (friendlyDrones s)
   \<and> (\<forall>i<length (friendlyDrones s).
        health_d (friendlyDrones (updatePhase c jm fm s) ! i) \<le> health_d (friendlyDrones s ! i))"
  "length (hostileDrones (updatePhase c jm fm s)) = length (hostileDrones s)
   \<and> (\<forall>i<length (hostileDrones s).
        health_d (hostileDrones (updatePhase c jm fm s) ! i) \<le> health_d (hostileDrones s ! i))"
  "length (groundAssets (updatePhase c jm fm s)) = length (groundAssets s)
   \<and> (\<forall>i<length (groundAssets s).
        health_a (groundAssets (updatePhase c jm fm s) ! i) \<le> health_a (groundAssets s ! i))"
  using updatePhase_health[of s c jm fm] unfolding nonInc_nth by blast+

lemma hostileStep_dead:
  "\<not> 0 < health_d (hostileDrones t ! j) \<Longrightarrow> hostileStep c jm fm j t = t"
  by (simp add: hostileStep_def)

lemma update_Hostile_fun: "(\<lambda>j. update (Hostile j) c jm fm) = updateHostile"
  by (intro ext) simp

lemma hostileFold_filtered:
  assumes "\<forall>j\<in>set js. j < length (hostileDrones u)"
  shows "fold (hostileStep c jm fm) js u
         = fold updateHostile (filter (\<lambda>j. 0 < health_d (hostileDrones u ! j)) js) u"
  using assms
proof (induction js arbitrary: u)
  case Nil
  show ?case by simp
next
  case (Cons a js)
  let ?v = "updateHostile a u"
  have m: "map health_d (hostileDrones ?v) = map health_d (hostileDrones u)"
    by (rule updateHostile_hostiles) simp
  have len: "length (hostileDrones ?v) = length (hostileDrones u)"
    using m by (rule map_eq_imp_length_eq)
  have same: "filter (\<lambda>j. 0 < health_d (hostileDrones ?v ! j)) js
              = filter (\<lambda>j. 0 < health_d (hostileDrones u ! j)) js"
  proof (rule filter_cong[OF refl])
    fix j assume "j \<in> set js"
    then have "j < length (hostileDrones u)" using Cons.prems by simp
    then have "health_d (hostileDrones ?v ! j) = health_d (hostileDrones u ! j)"
      by (rule map_eq_nth[OF m])
    then show "(0 < health_d (hostileDrones ?v ! j)) = (0 < health_d (hostileDrones u ! j))"
      by simp
  qed
  have ih: "fold (hostileStep c jm fm) js ?v
            = fold updateHostile (filter (\<lambda>j. 0 < health_d (hostileDrones ?v ! j)) js) ?v"
    by (rule Cons.IH) (use Cons.prems len in simp)
  show ?case
  proof (cases "0 < health_d (hostileDrones u ! a)")
    case True
    then have "hostileStep c jm fm a u = ?v" by (simp add: hostileStep_def)
    then show ?thesis using True ih same by simp
  next
    case False
    have "fold (hostileStep c jm fm) js u
          = fold updateHostile (filter (\<lambda>j. 0 < health_d (hostileDrones u ! j)) js) u"
      by (rule Cons.IH) (use Cons.prems in simp)
    moreover have "hostileStep c jm fm a u = u" using False by (simp add: hostileStep_def)
    ultimately show ?thesis using False by simp
  qed
qed

lemma friendlyPass_length [simp]:
  "length (hostileDrones (friendlyPass c jm fm s)) = length (hostileDrones s)"
  by (rule map_unit_length) (simp add: friendlyPass_hostiles)

lemma updatePhase_invocations:
  "updatePhase c jm fm s
   = fold (\<lambda>j. update (Hostile j) c jm fm)
       (filter (\<lambda>j. 0 < health_d (hostileDrones
                                    (friendlyPass c jm fm (clearJammed (ageParticles s))) ! j))
               [0..<length (hostileDrones s)])
       (friendlyPass c jm fm (clearJammed (ageParticles s)))"
  using hostileFold_filtered[of "[0..<length (hostileDrones s)]"
          "friendlyPass c jm fm (clearJammed (ageParticles s))" c jm fm]
  by (simp add: updatePhase_def hostilePass_def update_Hostile_fun)

lemma hostilePrefix_health:
  "map health_d (hostileDrones (fold (\<lambda>j. update (Hostile j) c jm fm) js u))
   = map health_d (hostileDrones u)"
  by (rule fold_frame[where p = "\<lambda>s. map health_d (hostileDrones s)"])
     (simp add: updateHostile_hostiles)

lemma friendlyPrefix_health:
  "map health_d (friendlyDrones (fold (\<lambda>i. update (Friendly i) c jm fm) is
                                   (clearJammed (ageParticles s))))
   = map health_d (friendlyDrones s)"
  by (simp add: friendlyPrefix_friendlies)

text \<open>The definitions unfolded to run the friendly pass on a concrete state.\<close>

lemmas friendly_tick_defs = friendlyPass_def
  updateFriendly_def autonomousMode_def mathRandom_def rescueLoop_def rescueStep_def markLost_def
  jamming_def jamStep_def jamParticle_def decide_def engage_def selectTarget_def calculateThreatScore_def
  isCriticalThreat_def shouldEngage_def engagementRatio_def othersTargeting_def jsdiv_def
  friendlyBombersExist_def maintainDefensivePosition_def patrolPosition_def patrolSlot_def
  applySeparation_def sepStep_def centerX_def centerY_def clearJammed_def ageParticles_def
  THREATENING_RANGE_def JAMMING_RANGE_def DRONE_SPEED_def

text \<open>
  Claim C3. During the updates of a tick every collection keeps its length and order
  (the ids stay in place), and the health of every friendly, hostile and asset is at
  most what it was at the start of the tick. The partitions keep exactly the entities
  with positive health, unchanged. The updates invoked in a tick are those of all the
  friendlies, in roster order, and then those of the hostiles whose health is positive
  when the friendly pass has ended, in order, and no other. The health of every
  friendly is the same during the whole friendly pass, and the health of every hostile
  the same during the whole hostile pass: if every friendly is alive when the tick
  starts, each friendly is alive when its own update is invoked, and each hostile that
  is updated is alive when its update is invoked. Since only entities with positive
  health remain after the partitions, no entity is updated after its health has
  reached 0 or less.
\<close>

theorem health_never_increases:
  "length (friendlyDrones (updatePhase c jm fm s)) = length (friendlyDrones s)
   \<and> (\<forall>i<length (friendlyDrones s).
        health_d (friendlyDrones (updatePhase c jm fm s) ! i) \<le> health_d (friendlyDrones s ! i))
   \<and> length (hostileDrones (updatePhase c jm fm s)) = length (hostileDrones s)
   \<and> (\<forall>i<length (hostileDrones s).
        health_d (hostileDrones (updatePhase c jm fm s) ! i) \<le> health_d (hostileDrones s ! i))
   \<and> length (groundAssets (updatePhase c jm fm s)) = length (groundAssets s)
   \<and> (\<forall>i<length (groundAssets s).
        health_a (groundAssets (updatePhase c jm fm s) ! i) \<le> health_a (groundAssets s ! i))
   \<and> map id_d (friendlyDrones (updatePhase c jm fm s)) = map id_d (friendlyDrones s)
   \<and> map id_d (hostileDrones (updatePhase c jm fm s)) = map id_d (hostileDrones s)
   \<and> friendlyDrones (updateSimulation c jm fm s)
        = filter (\<lambda>d. health_d d > 0) (friendlyDrones (updatePhase c jm fm s))
   \<and> hostileDrones (updateSimulation c jm fm s)
        = filter (\<lambda>d. health_d d > 0) (hostileDrones (updatePhase c jm fm s))
   \<and> groundAssets (updateSimulation c jm fm s)
        = filter (\<lambda>a. health_a a > 0) (groundAssets (updatePhase c jm fm s))
   \<and> (\<forall>d\<in>set (friendlyDrones (updateSimulation c jm fm s)). 0 < health_d d)
   \<and> (\<forall>d\<in>set (hostileDrones (updateSimulation c jm fm s)). 0 < health_d d)
   \<and> (\<forall>a\<in>set (groundAssets (updateSimulation c jm fm s)). 0 < health_a a)
   \<and> ((\<forall>d\<in>set (friendlyDrones s). 0 < health_d d) \<longrightarrow>
        (\<forall>i<length (friendlyDrones s).
           0 < health_d (friendlyDrones
                 (fold (\<lambda>i. update (Friendly i) c jm fm) [0..<i] (clearJammed (ageParticles s))) ! i)))
   \<and> (\<not> 0 < health_d (hostileDrones t ! j) \<longrightarrow> hostileStep c jm fm j t = t)
   \<and> updatePhase c jm fm s
       = fold (\<lambda>j. update (Hostile j) c jm fm)
           (filter (\<lambda>j. 0 < health_d (hostileDrones
                                        (friendlyPass c jm fm (clearJammed (ageParticles s))) ! j))
                   [0..<length (hostileDrones s)])
           (fold (\<lambda>i. update (Friendly i) c jm fm) [0..<length (friendlyDrones s)]
              (clearJammed (ageParticles s)))
   \<and> map health_d (hostileDrones
         (fold (\<lambda>j. update (Hostile j) c jm fm) js
            (friendlyPass c jm fm (clearJammed (ageParticles s)))))
       = map health_d (hostileDrones (friendlyPass c jm fm (clearJammed (ageParticles s))))
   \<and> map health_d (friendlyDrones
         (fold (\<lambda>i. update (Friendly i) c jm fm) is (clearJammed (ageParticles s))))
       = map health_d (friendlyDrones s)"
proof -
  have alive: "(\<forall>d\<in>set (friendlyDrones s). 0 < health_d d) \<longrightarrow>
        (\<forall>i<length (friendlyDrones s).
           0 < health_d (friendlyDrones
                 (fold (\<lambda>i. update (Friendly i) c jm fm) [0..<i] (clearJammed (ageParticles s))) ! i))"
    using friendly_alive_when_updated[of s _ c jm fm] by blast
  have dead: "\<not> 0 < health_d (hostileDrones t ! j) \<longrightarrow> hostileStep c jm fm j t = t"
    using hostileStep_dead[of t j c jm fm] by blast
  have inv: "updatePhase c jm fm s
       = fold (\<lambda>j. update (Hostile j) c jm fm)
           (filter (\<lambda>j. 0 < health_d (hostileDrones
                                        (friendlyPass c jm fm (clearJammed (ageParticles s))) ! j))
                   [0..<length (hostileDrones s)])
           (fold (\<lambda>i. update (Friendly i) c jm fm) [0..<length (friendlyDrones s)]
              (clearJammed (ageParticles s)))"
    using updatePhase_invocations[of c jm fm s] by (simp add: friendlyPass_def)
  show ?thesis
    by (intro conjI)
       (fact updatePhase_nth[THEN conjunct1] updatePhase_nth[THEN conjunct2] updatePhase_ids
          casualties_proj survivors_alive alive dead inv hostilePrefix_health
          friendlyPrefix_health)+
qed

theorem health_never_increases_witness:
  "0 < health_d (friendlyDrones
           (fold (\<lambda>i. update (Friendly i) True False Circle) [0..<0]
              (clearJammed (ageParticles deadSim))) ! 0)
   \<and> hostileStep True False Circle 0 deadSim = deadSim
   \<and> hostileDrones (updateSimulation True False Circle deadSim) = []
   \<and> map health_d (friendlyDrones (updatePhase True False Circle deadSim)) = [100]
   \<and> map health_d (friendlyDrones (updateSimulation True False Circle deadSim)) = [100]"
proof -
  have a: "\<forall>d\<in>set (friendlyDrones deadSim). 0 < health_d d" "0 < length (friendlyDrones deadSim)"
    "\<not> 0 < health_d (hostileDrones deadSim ! 0)" "length (hostileDrones deadSim) = 1"
    by (simp_all add: deadSim_def emptySim_def newDrone_def)
  note t = health_never_increases[of True False Circle deadSim deadSim 0 "[]" "[]"]
  have len: "length (hostileDrones (updatePhase True False Circle deadSim))
             = length (hostileDrones deadSim)"
    using t by (elim conjE) assumption
  have le: "\<forall>i<length (hostileDrones deadSim).
              health_d (hostileDrones (updatePhase True False Circle deadSim) ! i)
              \<le> health_d (hostileDrones deadSim ! i)"
    using t by (elim conjE) assumption
  have filt: "hostileDrones (updateSimulation True False Circle deadSim)
              = filter (\<lambda>d. health_d d > 0) (hostileDrones (updatePhase True False Circle deadSim))"
    using t by (elim conjE) assumption
  have ffilt: "friendlyDrones (updateSimulation True False Circle deadSim)
              = filter (\<lambda>d. health_d d > 0) (friendlyDrones (updatePhase True False Circle deadSim))"
    using t by (elim conjE) assumption
  have alive: "(\<forall>d\<in>set (friendlyDrones deadSim). 0 < health_d d) \<longrightarrow>
        (\<forall>i<length (friendlyDrones deadSim).
           0 < health_d (friendlyDrones
                 (fold (\<lambda>i. update (Friendly i) True False Circle) [0..<i]
                    (clearJammed (ageParticles deadSim))) ! i))"
    using t by (elim conjE) assumption
  have dead: "\<not> 0 < health_d (hostileDrones deadSim ! 0) \<longrightarrow>
              hostileStep True False Circle 0 deadSim = deadSim"
    using t by (elim conjE) assumption
  have inv: "updatePhase True False Circle deadSim
       = fold (\<lambda>j. update (Hostile j) True False Circle)
           (filter (\<lambda>j. 0 < health_d (hostileDrones
                      (friendlyPass True False Circle (clearJammed (ageParticles deadSim))) ! j))
                   [0..<length (hostileDrones deadSim)])
           (fold (\<lambda>i. update (Friendly i) True False Circle) [0..<length (friendlyDrones deadSim)]
              (clearJammed (ageParticles deadSim)))"
    using t by (elim conjE) assumption
  have hu: "health_d (hostileDrones
              (friendlyPass True False Circle (clearJammed (ageParticles deadSim))) ! 0) = - 2"
    by (simp add: deadSim_def friendly_tick_defs eval_defs)
  have fu: "map health_d (friendlyDrones
              (fold (\<lambda>i. update (Friendly i) True False Circle) [0..<length (friendlyDrones deadSim)]
                 (clearJammed (ageParticles deadSim)))) = [100]"
    by (simp add: deadSim_def friendly_tick_defs eval_defs)
  have none: "filter (\<lambda>j. 0 < health_d (hostileDrones
                      (friendlyPass True False Circle (clearJammed (ageParticles deadSim))) ! j))
                   [0..<length (hostileDrones deadSim)] = []"
    using hu a(4) by simp
  have ph: "map health_d (friendlyDrones (updatePhase True False Circle deadSim)) = [100]"
    using inv fu unfolding none by simp
  then have sim: "map health_d (friendlyDrones (updateSimulation True False Circle deadSim)) = [100]"
    unfolding ffilt by (cases "friendlyDrones (updatePhase True False Circle deadSim)") auto
  obtain h where h: "hostileDrones (updatePhase True False Circle deadSim) = [h]"
    using len a(4) by (cases "hostileDrones (updatePhase True False Circle deadSim)") auto
  have "health_d h \<le> 0"
    using le a(3,4) h by simp
  then have gone: "hostileDrones (updateSimulation True False Circle deadSim) = []"
    using filt h by simp
  have first: "0 < health_d (friendlyDrones
           (fold (\<lambda>i. update (Friendly i) True False Circle) [0..<0]
              (clearJammed (ageParticles deadSim))) ! 0)"
    using alive a(1,2) by blast
  show ?thesis
    using first dead a(3) gone ph sim by blast
qed

subsection \<open>Jamming damage\<close>

lemma roster_kept:
  "length (friendlyDrones (fold (\<lambda>k. update (Friendly k) c jm fm) ks s))
   = length (friendlyDrones s)"
  "length (friendlyDrones (beforeDecision i jm s)) = length (friendlyDrones s)"
  by (rule map_unit_length, simp add: friendlyPrefix_friendlies beforeDecision_friendlies)+

subsection \<open>Weapons out of range\<close>

lemma fireAt_other_hostile:
  "k \<noteq> j \<Longrightarrow>
   health_d (hostileDrones (fireAt (Friendly i) (DroneT (Hostile j)) c damage s) ! k)
     = health_d (hostileDrones s ! k)"
  by (cases "clock s (reads s) - lastFired (getDrone s (Friendly i)) < 100")
     (simp_all add: fireAt_blocked fireAt_fires Let_def)

lemma decide_out_of_range:
  assumes "i < length (friendlyDrones s)"
    and "FIRING_RANGE < calculateDistance (friendlyDrones s ! i) (pos_d (hostileDrones s ! k))"
  shows "health_d (hostileDrones (decide i hc fm s) ! k) = health_d (hostileDrones s ! k)"
proof (cases "selectTarget i hc s")
  case None
  then show ?thesis by (simp add: decide_def)
next
  case (Some jv)
  obtain j v where jv: "jv = (j, v)" by (cases jv)
  let ?s1 = "setFriendly i
               (\<lambda>d. d\<lparr>target := Some (id_d (hostileDrones s ! j)), isEngaging := True\<rparr>) s"
  have d: "calculateDistance (friendlyDrones ?s1 ! i) p = calculateDistance (friendlyDrones s ! i) p"
    for p
    using assms(1) by (simp add: calculateDistance_def)
  have e: "health_d (hostileDrones (engage i j ?s1) ! k) = health_d (hostileDrones s ! k)"
  proof (cases "k = j")
    case True
    then show ?thesis using assms by (simp add: engage_def Let_def calculateDistance_def)
  next
    case False
    then show ?thesis by (simp add: engage_def Let_def fireAt_other_hostile)
  qed
  show ?thesis
    using Some jv e by (simp add: decide_def Let_def)
qed

subsection \<open>A friendly that makes no rescue move stays where it is\<close>

lemma rescueStep_flag: "snd sp \<Longrightarrow> snd (rescueStep i k sp)"
  by (simp add: rescueStep_def Let_def split_beta split: option.splits)

lemma rescueStep_still:
  "\<not> snd (rescueStep i k sp) \<Longrightarrow>
   map pos_d (friendlyDrones (fst (rescueStep i k sp))) = map pos_d (friendlyDrones (fst sp))"
  by (simp add: rescueStep_def Let_def split_beta map_update_frame pos_d_def
        split: option.splits if_splits)

lemma rescueFold_still:
  "\<not> snd (fold (rescueStep i) ks sp) \<Longrightarrow>
   \<not> snd sp
   \<and> map pos_d (friendlyDrones (fst (fold (rescueStep i) ks sp))) = map pos_d (friendlyDrones (fst sp))"
proof (induction ks arbitrary: sp)
  case Nil
  then show ?case by simp
next
  case (Cons k ks)
  from Cons.prems have a: "\<not> snd (fold (rescueStep i) ks (rescueStep i k sp))" by simp
  from Cons.IH[OF a] have b: "\<not> snd (rescueStep i k sp)"
    and c: "map pos_d (friendlyDrones (fst (fold (rescueStep i) ks (rescueStep i k sp))))
            = map pos_d (friendlyDrones (fst (rescueStep i k sp)))"
    by simp_all
  from b have "\<not> snd sp" using rescueStep_flag[of sp i k] by blast
  then show ?case using c rescueStep_still[OF b] by simp
qed

lemma ignores_pos_d_fields [simp]:
  "ignores lostCoords_update pos_d" "ignores target_update pos_d"
  "ignores isEngaging_update pos_d" "ignores lastFired_update pos_d"
  by (simp_all add: ignores_def pos_d_def)

lemma beforeDecision_still:
  assumes "\<not> performsRescue i s"
  shows "map pos_d (friendlyDrones (beforeDecision i jm s)) = map pos_d (friendlyDrones s)"
proof -
  let ?s0 = "setFriendly i (\<lambda>d. d\<lparr>jammingTargets := []\<rparr>) s"
  have "map pos_d (friendlyDrones (fst (rescueLoop i ?s0))) = map pos_d (friendlyDrones ?s0)"
    using assms rescueFold_still[of i "[0..<length (friendlyDrones ?s0)]" "(?s0, False)"]
    unfolding performsRescue_def rescueLoop_def by simp
  also have "\<dots> = map pos_d (friendlyDrones s)"
    by (simp add: map_update_frame pos_d_def)
  finally have "map pos_d (friendlyDrones (markLost i (fst (rescueLoop i ?s0))))
                = map pos_d (friendlyDrones s)"
    by (simp add: markLost_friendlies)
  then show ?thesis
    by (simp add: beforeDecision_def Let_def jamming_friendlies)
qed

lemma dist_pos: "pos_d d' = pos_d d \<Longrightarrow> calculateDistance d' p = calculateDistance d p"
  by (simp add: calculateDistance_def pos_d_def)


subsection \<open>The update of a friendly leaves the other friendlies where they are\<close>

lemma mask_other:
  assumes "\<And>d. g (f d) = g d"
  shows "map g ((friendlyDrones (setFriendly k f s))[i := d0]) = map g ((friendlyDrones s)[i := d0])"
proof (cases "k = i")
  case True
  then show ?thesis by simp
next
  case False
  have "((friendlyDrones s)[k := f (friendlyDrones s ! k)])[i := d0]
        = ((friendlyDrones s)[i := d0])[k := f (((friendlyDrones s)[i := d0]) ! k)]"
    using False by (simp add: list_update_swap)
  then show ?thesis by (simp add: map_update_frame assms)
qed

lemma mask_self:
  "map g ((friendlyDrones (setFriendly i f s))[i := d0]) = map g ((friendlyDrones s)[i := d0])"
  by simp

lemma update_Friendly_fun:
  "(\<lambda>k. update (Friendly k) c jm fm) = (\<lambda>k. updateFriendly k c jm fm)"
  by (intro ext) simp

lemma rescueStep_mask:
  "map pos_d ((friendlyDrones (fst (rescueStep i k sp)))[i := d0])
   = map pos_d ((friendlyDrones (fst sp))[i := d0])"
  by (simp add: rescueStep_def Let_def split_beta mask_other mask_self pos_d_def
        split: option.splits del: set_proj_list)

lemma rescueLoop_mask:
  "map pos_d ((friendlyDrones (fst (rescueLoop i s)))[i := d0])
   = map pos_d ((friendlyDrones s)[i := d0])"
  unfolding rescueLoop_def
  using fold_frame[where p = "\<lambda>sp. map pos_d ((friendlyDrones (fst sp))[i := d0])"
          and f = "rescueStep i", OF rescueStep_mask]
  by simp

lemma markLost_mask:
  "map pos_d ((friendlyDrones (markLost i s))[i := d0]) = map pos_d ((friendlyDrones s)[i := d0])"
  by (simp add: markLost_def Let_def)

lemma autonomousMode_mask:
  "map pos_d ((friendlyDrones (autonomousMode i s))[i := d0])
   = map pos_d ((friendlyDrones s)[i := d0])"
  by (simp add: autonomousMode_def mathRandom_def Let_def)

lemma jamStep_mask:
  "map pos_d ((friendlyDrones (jamStep i j s))[i := d0]) = map pos_d ((friendlyDrones s)[i := d0])"
  by (simp add: jamStep_def mathRandom_def Let_def)

lemma jamming_mask:
  "map pos_d ((friendlyDrones (jamming i s))[i := d0]) = map pos_d ((friendlyDrones s)[i := d0])"
  unfolding jamming_def
  by (rule fold_frame[where p = "\<lambda>s. map pos_d ((friendlyDrones s)[i := d0])"])
     (rule jamStep_mask)

lemma fireAt_mask:
  "map pos_d ((friendlyDrones (fireAt (Friendly i) (DroneT (Hostile j)) c damage s))[i := d0])
   = map pos_d ((friendlyDrones s)[i := d0])"
  by (cases "clock s (reads s) - lastFired (getDrone s (Friendly i)) < 100")
     (simp_all add: fireAt_blocked fireAt_fires Let_def)

lemma applySeparation_mask:
  "map pos_d ((friendlyDrones (applySeparation i sd s))[i := d0])
   = map pos_d ((friendlyDrones s)[i := d0])"
  by (simp add: applySeparation_def Let_def split_beta)

lemma patrolPosition_mask:
  "map pos_d ((friendlyDrones (patrolPosition i fm s))[i := d0])
   = map pos_d ((friendlyDrones s)[i := d0])"
  by (simp add: patrolPosition_def Let_def applySeparation_mask split: option.splits)

lemma maintainDefensivePosition_mask:
  "map pos_d ((friendlyDrones (maintainDefensivePosition i s))[i := d0])
   = map pos_d ((friendlyDrones s)[i := d0])"
  by (simp add: maintainDefensivePosition_def Let_def)

lemma decide_mask:
  "map pos_d ((friendlyDrones (decide i hc fm s))[i := d0]) = map pos_d ((friendlyDrones s)[i := d0])"
  by (simp add: decide_def engage_def Let_def fireAt_mask patrolPosition_mask
        maintainDefensivePosition_mask split: option.splits)

lemma updateFriendly_mask:
  "map pos_d ((friendlyDrones (updateFriendly i c jm fm s))[i := d0])
   = map pos_d ((friendlyDrones s)[i := d0])"
  by (simp add: updateFriendly_def Let_def split_beta autonomousMode_mask decide_mask
        jamming_mask markLost_mask rescueLoop_mask)

lemma updateFriendly_other:
  assumes "a \<noteq> i" "a < length (friendlyDrones s)"
  shows "pos_d (friendlyDrones (updateFriendly i c jm fm s) ! a) = pos_d (friendlyDrones s ! a)"
proof -
  have "pos_d ((friendlyDrones (updateFriendly i c jm fm s))[i := d0] ! a)
        = pos_d ((friendlyDrones s)[i := d0] ! a)" for d0
    by (rule map_eq_nth[OF updateFriendly_mask]) (use assms in simp)
  then show ?thesis using assms(1) by simp
qed

lemma prefix_other:
  assumes "a \<notin> set is" "a < length (friendlyDrones t)"
  shows "pos_d (friendlyDrones (fold (\<lambda>k. update (Friendly k) c jm fm) is t) ! a)
         = pos_d (friendlyDrones t ! a)"
  using assms
proof (induction "is" arbitrary: t)
  case Nil
  show ?case by simp
next
  case (Cons b "is")
  have len: "a < length (friendlyDrones (updateFriendly b c jm fm t))"
    using Cons.prems(2) roster_kept(1)[of c jm fm "[b]" t] by simp
  have "pos_d (friendlyDrones (fold (\<lambda>k. update (Friendly k) c jm fm) is
                                 (updateFriendly b c jm fm t)) ! a)
        = pos_d (friendlyDrones (updateFriendly b c jm fm t) ! a)"
    by (rule Cons.IH) (use Cons.prems len in simp_all)
  also have "\<dots> = pos_d (friendlyDrones t ! a)"
    by (rule updateFriendly_other) (use Cons.prems in simp_all)
  finally show ?case by (simp add: update_Friendly_fun)
qed

lemma prefix_hostile_pos:
  "map pos_d (hostileDrones (fold (\<lambda>k. update (Friendly k) c jm fm) is t))
   = map pos_d (hostileDrones t)"
  by (rule fold_frame[where p = "\<lambda>s. map pos_d (hostileDrones s)"])
     (simp add: updateFriendly_hostiles)


subsection \<open>The health of a hostile over the turn of one friendly\<close>

lemma beforeDecision_jamming:
  "beforeDecision i True s = jamming i (beforeDecision i False s)"
  "hostileDrones (beforeDecision i False s) = hostileDrones s"
  by (simp_all add: beforeDecision_def Let_def)

lemma beforeDecision_health:
  assumes i: "i < length (friendlyDrones P)" and k: "k < length (hostileDrones P)"
    and nr: "\<not> performsRescue i P"
  shows "health_d (hostileDrones (beforeDecision i jm P) ! k)
         = health_d (hostileDrones P ! k)
           - (if jm \<and> 0 < health_d (hostileDrones P ! k)
                 \<and> calculateDistance (friendlyDrones P ! i) (pos_d (hostileDrones P ! k))
                     \<le> JAMMING_RANGE
              then 1 / 10 else 0)"
proof (cases jm)
  case False
  then show ?thesis by (simp add: beforeDecision_jamming)
next
  case True
  let ?Q = "beforeDecision i False P"
  have iQ: "i < length (friendlyDrones ?Q)" using i by (simp add: roster_kept)
  have kQ: "k < length (hostileDrones ?Q)" using k by (simp add: beforeDecision_jamming)
  have "pos_d (friendlyDrones ?Q ! i) = pos_d (friendlyDrones P ! i)"
    by (rule map_eq_nth[OF beforeDecision_still[OF nr] i])
  then have d: "calculateDistance (friendlyDrones ?Q ! i) p = calculateDistance (friendlyDrones P ! i) p"
    for p by (rule dist_pos)
  show ?thesis
    using True jamming_exact[OF kQ iQ] by (simp add: beforeDecision_jamming d)
qed

lemma beforeDecision_dist:
  assumes i: "i < length (friendlyDrones P)" and k: "k < length (hostileDrones P)"
    and nr: "\<not> performsRescue i P"
  shows "calculateDistance (friendlyDrones (beforeDecision i jm P) ! i)
           (pos_d (hostileDrones (beforeDecision i jm P) ! k))
         = calculateDistance (friendlyDrones P ! i) (pos_d (hostileDrones P ! k))"
proof -
  have "pos_d (friendlyDrones (beforeDecision i jm P) ! i) = pos_d (friendlyDrones P ! i)"
    by (rule map_eq_nth[OF beforeDecision_still[OF nr] i])
  then have "calculateDistance (friendlyDrones (beforeDecision i jm P) ! i) p
             = calculateDistance (friendlyDrones P ! i) p" for p
    by (rule dist_pos)
  moreover have "pos_d (hostileDrones (beforeDecision i jm P) ! k) = pos_d (hostileDrones P ! k)"
    by (rule map_eq_nth[OF beforeDecision_hostiles[of pos_d i jm P] k]) simp_all
  ultimately show ?thesis by simp
qed

lemma turn_exact:
  assumes i: "i < length (friendlyDrones P)" and k: "k < length (hostileDrones P)"
    and far: "FIRING_RANGE < calculateDistance (friendlyDrones P ! i) (pos_d (hostileDrones P ! k))"
  shows "health_d (hostileDrones (updateFriendly i c jm fm P) ! k)
         = health_d (hostileDrones P ! k)
           - (if c \<and> jm \<and> \<not> performsRescue i P \<and> 0 < health_d (hostileDrones P ! k)
                 \<and> calculateDistance (friendlyDrones P ! i) (pos_d (hostileDrones P ! k))
                     \<le> JAMMING_RANGE
              then 1 / 10 else 0)"
proof (cases "c \<and> \<not> performsRescue i P")
  case False
  then consider "\<not> c" | "c" "performsRescue i P" by blast
  then show ?thesis
  proof cases
    case 1
    then show ?thesis by (simp add: updateFriendly_modes(1))
  next
    case 2
    then show ?thesis by (simp add: updateFriendly_modes(2))
  qed
next
  case True
  then have c: c and nr: "\<not> performsRescue i P" by simp_all
  let ?B = "beforeDecision i jm P"
  have iB: "i < length (friendlyDrones ?B)" using i by (simp add: roster_kept)
  have farB: "FIRING_RANGE < calculateDistance (friendlyDrones ?B ! i) (pos_d (hostileDrones ?B ! k))"
    using far unfolding beforeDecision_dist[OF i k nr] .
  have "health_d (hostileDrones (updateFriendly i c jm fm P) ! k)
        = health_d (hostileDrones (decide i True fm ?B) ! k)"
    using c nr by (simp add: updateFriendly_modes(3))
  also have "\<dots> = health_d (hostileDrones ?B ! k)"
    by (rule decide_out_of_range[OF iB farB])
  finally show ?thesis
    using c nr by (simp add: beforeDecision_health[OF i k nr])
qed

lemma turn_bound:
  assumes i: "i < length (friendlyDrones P)" and k: "k < length (hostileDrones P)"
  shows "health_d (hostileDrones (updateFriendly i c jm fm P) ! k)
         \<le> health_d (hostileDrones P ! k)
           - (if c \<and> jm \<and> \<not> performsRescue i P \<and> 0 < health_d (hostileDrones P ! k)
                 \<and> calculateDistance (friendlyDrones P ! i) (pos_d (hostileDrones P ! k))
                     \<le> JAMMING_RANGE
              then 1 / 10 else 0)"
proof (cases "c \<and> \<not> performsRescue i P")
  case False
  then consider "\<not> c" | "c" "performsRescue i P" by blast
  then show ?thesis
  proof cases
    case 1
    then show ?thesis by (simp add: updateFriendly_modes(1))
  next
    case 2
    then show ?thesis by (simp add: updateFriendly_modes(2))
  qed
next
  case True
  then have c: c and nr: "\<not> performsRescue i P" by simp_all
  let ?B = "beforeDecision i jm P"
  have kB: "k < length (hostileDrones ?B)"
    using k map_unit_length[OF beforeDecision_hostiles[of "\<lambda>d. ()" i jm P]] by simp
  have "health_d (hostileDrones (updateFriendly i c jm fm P) ! k)
        = health_d (hostileDrones (decide i True fm ?B) ! k)"
    using c nr by (simp add: updateFriendly_modes(3))
  also have "\<dots> \<le> health_d (hostileDrones ?B ! k)"
    using decide_health[of ?B i True fm] kB unfolding nonInc_nth by blast
  finally show ?thesis
    using c nr by (simp add: beforeDecision_health[OF i k nr])
qed


subsection \<open>The health of a hostile over the friendly pass\<close>

lemma turnState_simps:
  "turnState 0 c jm fm s = clearJammed (ageParticles s)"
  "turnState (Suc i) c jm fm s = updateFriendly i c jm fm (turnState i c jm fm s)"
  "turnState (length (friendlyDrones s)) c jm fm s
   = friendlyPass c jm fm (clearJammed (ageParticles s))"
  by (simp_all add: turnState_def friendlyPass_def)

lemma turnState_length:
  "length (friendlyDrones (turnState i c jm fm s)) = length (friendlyDrones s)"
  "length (hostileDrones (turnState i c jm fm s)) = length (hostileDrones s)"
proof -
  show "length (friendlyDrones (turnState i c jm fm s)) = length (friendlyDrones s)"
    by (simp add: turnState_def roster_kept)
  have "map (\<lambda>d. ()) (hostileDrones (turnState i c jm fm s))
        = map (\<lambda>d. ()) (hostileDrones (clearJammed (ageParticles s)))"
    unfolding turnState_def
    by (rule fold_frame[where p = "\<lambda>s. map (\<lambda>d. ()) (hostileDrones s)"])
       (simp add: updateFriendly_hostiles)
  then show "length (hostileDrones (turnState i c jm fm s)) = length (hostileDrones s)"
    using map_unit_length by fastforce
qed

lemma turnState_dist:
  assumes "i < length (friendlyDrones s)" "k < length (hostileDrones s)"
  shows "calculateDistance (friendlyDrones (turnState i c jm fm s) ! i)
           (pos_d (hostileDrones (turnState i c jm fm s) ! k))
         = calculateDistance (friendlyDrones s ! i) (pos_d (hostileDrones s ! k))"
proof -
  let ?t = "clearJammed (ageParticles s)"
  have "pos_d (friendlyDrones (turnState i c jm fm s) ! i) = pos_d (friendlyDrones ?t ! i)"
    unfolding turnState_def by (rule prefix_other) (use assms in simp_all)
  then have f: "calculateDistance (friendlyDrones (turnState i c jm fm s) ! i) p
                = calculateDistance (friendlyDrones s ! i) p" for p
    using dist_pos[of "friendlyDrones (turnState i c jm fm s) ! i" "friendlyDrones s ! i" p]
    by simp
  have "map pos_d (hostileDrones (turnState i c jm fm s)) = map pos_d (hostileDrones ?t)"
    unfolding turnState_def by (rule prefix_hostile_pos)
  also have "\<dots> = map pos_d (hostileDrones s)"
    by (simp add: clearJammed_def o_def pos_d_def)
  finally have "pos_d (hostileDrones (turnState i c jm fm s) ! k) = pos_d (hostileDrones s ! k)"
    using assms(2) by (rule map_eq_nth)
  then show ?thesis using f by simp
qed

lemma turnState_start:
  assumes "k < length (hostileDrones s)"
  shows "health_d (hostileDrones (turnState 0 c jm fm s) ! k) = health_d (hostileDrones s ! k)"
  using assms by (simp add: turnState_simps clearJammed_def)

lemma filter_prefix_length:
  "i \<le> n \<Longrightarrow> length (filter p [0..<i]) \<le> length (filter p [0..<n])"
proof -
  assume "i \<le> n"
  then have "[0..<n] = [0..<i] @ [i..<n]"
    using upt_add_eq_append[of 0 i "n - i"] by simp
  then show ?thesis by simp
qed

lemma tick_exact:
  assumes k: "k < length (hostileDrones s)"
    and far: "\<forall>a<length (friendlyDrones s).
                FIRING_RANGE < calculateDistance (friendlyDrones s ! a) (pos_d (hostileDrones s ! k))"
    and enough: "(1 / 10) * real (length (jammers k c jm fm s)) < health_d (hostileDrones s ! k)"
  shows "i \<le> length (friendlyDrones s) \<Longrightarrow>
         health_d (hostileDrones (turnState i c jm fm s) ! k)
         = health_d (hostileDrones s ! k)
           - (1 / 10) * real (length (filter (jams k c jm fm s) [0..<i]))"
proof (induction i)
  case 0
  show ?case using turnState_start[OF k] by simp
next
  case (Suc i)
  let ?P = "turnState i c jm fm s"
  have i: "i < length (friendlyDrones s)" using Suc.prems by simp
  have ih: "health_d (hostileDrones ?P ! k)
            = health_d (hostileDrones s ! k)
              - (1 / 10) * real (length (filter (jams k c jm fm s) [0..<i]))"
    using Suc.IH i by simp
  have iP: "i < length (friendlyDrones ?P)" and kP: "k < length (hostileDrones ?P)"
    using i k by (simp_all add: turnState_length)
  note d = turnState_dist[OF i k, of c jm fm]
  have farP: "FIRING_RANGE < calculateDistance (friendlyDrones ?P ! i) (pos_d (hostileDrones ?P ! k))"
    using far i unfolding d by blast
  have "length (filter (jams k c jm fm s) [0..<i]) \<le> length (jammers k c jm fm s)"
    unfolding jammers_def by (rule filter_prefix_length) (use i in simp)
  then have "(1 / 10) * real (length (filter (jams k c jm fm s) [0..<i]))
             \<le> (1 / 10) * real (length (jammers k c jm fm s))"
    by simp
  then have pos: "0 < health_d (hostileDrones ?P ! k)"
    using enough ih by linarith
  have cond: "(c \<and> jm \<and> \<not> performsRescue i ?P \<and> 0 < health_d (hostileDrones ?P ! k)
               \<and> calculateDistance (friendlyDrones ?P ! i) (pos_d (hostileDrones ?P ! k))
                   \<le> JAMMING_RANGE)
              = jams k c jm fm s i"
    using pos unfolding d jams_def by simp
  have "health_d (hostileDrones (turnState (Suc i) c jm fm s) ! k)
        = health_d (hostileDrones ?P ! k) - (if jams k c jm fm s i then 1 / 10 else 0)"
    unfolding turnState_simps(2) turn_exact[OF iP kP farP] cond ..
  then show ?case using ih by (simp add: add_divide_distrib)
qed

lemma tick_bound:
  assumes k: "k < length (hostileDrones s)"
  shows "i \<le> length (friendlyDrones s) \<Longrightarrow>
         health_d (hostileDrones (turnState i c jm fm s) ! k) \<le> 0
         \<or> health_d (hostileDrones (turnState i c jm fm s) ! k)
             \<le> health_d (hostileDrones s ! k)
               - (1 / 10) * real (length (filter (jams k c jm fm s) [0..<i]))"
proof (induction i)
  case 0
  show ?case using turnState_start[OF k] by simp
next
  case (Suc i)
  let ?P = "turnState i c jm fm s"
  have i: "i < length (friendlyDrones s)" using Suc.prems by simp
  have ih: "health_d (hostileDrones ?P ! k) \<le> 0
            \<or> health_d (hostileDrones ?P ! k)
                \<le> health_d (hostileDrones s ! k)
                  - (1 / 10) * real (length (filter (jams k c jm fm s) [0..<i]))"
    using Suc.IH i by simp
  have iP: "i < length (friendlyDrones ?P)" and kP: "k < length (hostileDrones ?P)"
    using i k by (simp_all add: turnState_length)
  note d = turnState_dist[OF i k, of c jm fm]
  have step: "health_d (hostileDrones (turnState (Suc i) c jm fm s) ! k)
        \<le> health_d (hostileDrones ?P ! k)
          - (if c \<and> jm \<and> \<not> performsRescue i ?P \<and> 0 < health_d (hostileDrones ?P ! k)
                \<and> calculateDistance (friendlyDrones s ! i) (pos_d (hostileDrones s ! k))
                    \<le> JAMMING_RANGE
             then 1 / 10 else 0)"
    using turn_bound[OF iP kP, of c jm fm] unfolding turnState_simps(2) d .
  show ?case
  proof (cases "0 < health_d (hostileDrones ?P ! k)")
    case False
    then show ?thesis using step by (simp split: if_splits)
  next
    case True
    then have "health_d (hostileDrones (turnState (Suc i) c jm fm s) ! k)
               \<le> health_d (hostileDrones ?P ! k) - (if jams k c jm fm s i then 1 / 10 else 0)"
      using step unfolding jams_def by simp
    then show ?thesis using ih True by (auto simp: add_divide_distrib split: if_splits)
  qed
qed

lemma updatePhase_hostile_health:
  assumes "k < length (hostileDrones s)"
  shows "health_d (hostileDrones (updatePhase c jm fm s) ! k)
         = health_d (hostileDrones (turnState (length (friendlyDrones s)) c jm fm s) ! k)"
proof -
  have "k < length (hostileDrones (turnState (length (friendlyDrones s)) c jm fm s))"
    using assms by (simp add: turnState_length)
  then show ?thesis
    unfolding updatePhase_def turnState_simps(3)[symmetric]
    by (rule map_eq_nth[OF hostilePass_hostiles[of health_d], rotated]) simp
qed


lemma jammers_unfold:
  "jammers k c jm fm s
   = filter (\<lambda>a. c \<and> jm
                \<and> \<not> performsRescue a
                      (fold (\<lambda>b. update (Friendly b) c jm fm) [0..<a]
                         (clearJammed (ageParticles s)))
                \<and> calculateDistance (friendlyDrones s ! a) (pos_d (hostileDrones s ! k))
                    \<le> JAMMING_RANGE)
       [0..<length (friendlyDrones s)]"
  by (simp add: jammers_def jams_def[abs_def] turnState_def)

lemma tick_jamming_exact:
  assumes "k < length (hostileDrones s)"
    and "\<forall>a<length (friendlyDrones s).
           FIRING_RANGE < calculateDistance (friendlyDrones s ! a) (pos_d (hostileDrones s ! k))"
    and "(1 / 10) * real (length (jammers k c jm fm s)) < health_d (hostileDrones s ! k)"
  shows "health_d (hostileDrones (updatePhase c jm fm s) ! k)
         = health_d (hostileDrones s ! k) - (1 / 10) * real (length (jammers k c jm fm s))"
  using tick_exact[OF assms, of "length (friendlyDrones s)"]
  unfolding updatePhase_hostile_health[OF assms(1)] jammers_def by simp

lemma tick_jamming_bound:
  assumes "k < length (hostileDrones s)"
  shows "health_d (hostileDrones (updatePhase c jm fm s) ! k) \<le> 0
         \<or> health_d (hostileDrones (updatePhase c jm fm s) ! k)
             \<le> health_d (hostileDrones s ! k) - (1 / 10) * real (length (jammers k c jm fm s))"
  using tick_bound[OF assms, of "length (friendlyDrones s)" c jm fm]
  unfolding updatePhase_hostile_health[OF assms] jammers_def by simp

lemma turn_jamming:
  assumes k: "k < length (hostileDrones s)" and i: "i < length (friendlyDrones s)"
    and c: "c" and nr: "\<not> performsRescue i (turnState i c jm fm s)"
  shows "update (Friendly i) c jm fm (turnState i c jm fm s)
         = decide i True fm (beforeDecision i jm (turnState i c jm fm s))"
    and "health_d (hostileDrones (beforeDecision i jm (turnState i c jm fm s)) ! k)
         = health_d (hostileDrones (turnState i c jm fm s) ! k)
           - (if jm \<and> 0 < health_d (hostileDrones (turnState i c jm fm s) ! k)
                 \<and> calculateDistance (friendlyDrones s ! i) (pos_d (hostileDrones s ! k))
                     \<le> JAMMING_RANGE
              then 1 / 10 else 0)"
proof -
  let ?P = "turnState i c jm fm s"
  have iP: "i < length (friendlyDrones ?P)" and kP: "k < length (hostileDrones ?P)"
    using i k by (simp_all add: turnState_length)
  show "update (Friendly i) c jm fm ?P = decide i True fm (beforeDecision i jm ?P)"
    using c nr by (simp add: updateFriendly_modes(3))
  show "health_d (hostileDrones (beforeDecision i jm ?P) ! k)
         = health_d (hostileDrones ?P ! k)
           - (if jm \<and> 0 < health_d (hostileDrones ?P ! k)
                 \<and> calculateDistance (friendlyDrones s ! i) (pos_d (hostileDrones s ! k))
                     \<le> JAMMING_RANGE
              then 1 / 10 else 0)"
    using beforeDecision_health[OF iP kP nr, of jm] unfolding turnState_dist[OF i k] .
qed

text \<open>
  Claim C10, as amended. Numbers are reals here, so every equation below is one of
  exact arithmetic; the doubles of the source satisfy it up to rounding. The jamming
  loop of one friendly reduces by exactly 0.1 the health of every hostile that then
  has positive health and lies within \<open>JAMMING_RANGE\<close> of it, and of no other. In a
  tick the loop of a friendly runs in the turn of that friendly, in normal mode and
  when it makes no rescue move, right before its decision logic, which may fire; the
  distance it tests is the one at the start of the tick. The reductions of the jammers
  of a hostile add up as long as the hostile has positive health when each loop runs:
  if no friendly is within \<open>FIRING_RANGE\<close> of the hostile (so that no weapon is fired
  at it) and its health exceeds 0.1 times the number of its jammers, the updates of the
  tick reduce its health by exactly 0.1 times that number; and in every tick the
  hostile ends with no health left or with at least that much less, weapon damage
  coming on top. An update that makes a rescue move, and every update with
  communication disabled, leaves all hostiles untouched: there is no jamming damage
  then, even with jamming enabled.
\<close>

theorem jamming_damage:
  assumes "k < length (hostileDrones s)" and "i < length (friendlyDrones s)"
  shows "health_d (hostileDrones (jamming i s) ! k) =
           (if 0 < health_d (hostileDrones s ! k)
               \<and> calculateDistance (friendlyDrones s ! i) (pos_d (hostileDrones s ! k)) \<le> JAMMING_RANGE
            then health_d (hostileDrones s ! k) - 1 / 10
            else health_d (hostileDrones s ! k))
       \<and> jammers k c jm fm s
           = filter (\<lambda>a. c \<and> jm
                        \<and> \<not> performsRescue a
                              (fold (\<lambda>b. update (Friendly b) c jm fm) [0..<a]
                                 (clearJammed (ageParticles s)))
                        \<and> calculateDistance (friendlyDrones s ! a) (pos_d (hostileDrones s ! k))
                            \<le> JAMMING_RANGE)
               [0..<length (friendlyDrones s)]
       \<and> ((\<forall>a<length (friendlyDrones s).
              FIRING_RANGE < calculateDistance (friendlyDrones s ! a) (pos_d (hostileDrones s ! k)))
            \<and> (1 / 10) * real (length (jammers k c jm fm s)) < health_d (hostileDrones s ! k)
          \<longrightarrow> health_d (hostileDrones (updatePhase c jm fm s) ! k)
                = health_d (hostileDrones s ! k)
                  - (1 / 10) * real (length (jammers k c jm fm s)))
       \<and> (health_d (hostileDrones (updatePhase c jm fm s) ! k) \<le> 0
          \<or> health_d (hostileDrones (updatePhase c jm fm s) ! k)
              \<le> health_d (hostileDrones s ! k)
                - (1 / 10) * real (length (jammers k c jm fm s)))
       \<and> (c \<and> \<not> performsRescue i (turnState i c jm fm s) \<longrightarrow>
            update (Friendly i) c jm fm (turnState i c jm fm s)
              = decide i True fm (beforeDecision i jm (turnState i c jm fm s))
            \<and> health_d (hostileDrones (beforeDecision i jm (turnState i c jm fm s)) ! k)
              = health_d (hostileDrones (turnState i c jm fm s) ! k)
                - (if jm \<and> 0 < health_d (hostileDrones (turnState i c jm fm s) ! k)
                      \<and> calculateDistance (friendlyDrones s ! i) (pos_d (hostileDrones s ! k))
                          \<le> JAMMING_RANGE
                   then 1 / 10 else 0))
       \<and> turnState i c jm fm s
           = fold (\<lambda>b. update (Friendly b) c jm fm) [0..<i] (clearJammed (ageParticles s))
       \<and> (\<not> performsRescue i s \<longrightarrow>
            updateFriendly i True True fm s = decide i True fm (jamming i (beforeDecision i False s))
            \<and> map health_d (hostileDrones (beforeDecision i False s)) = map health_d (hostileDrones s))
       \<and> (performsRescue i s \<longrightarrow>
            hostileDrones (updateFriendly i True jm fm s) = hostileDrones s)
       \<and> hostileDrones (updateFriendly i False jm fm s) = hostileDrones s"
proof -
  have ex: "(\<forall>a<length (friendlyDrones s).
              FIRING_RANGE < calculateDistance (friendlyDrones s ! a) (pos_d (hostileDrones s ! k)))
            \<and> (1 / 10) * real (length (jammers k c jm fm s)) < health_d (hostileDrones s ! k)
          \<longrightarrow> health_d (hostileDrones (updatePhase c jm fm s) ! k)
                = health_d (hostileDrones s ! k)
                  - (1 / 10) * real (length (jammers k c jm fm s))"
    using tick_jamming_exact[OF assms(1), of c jm fm] by blast
  have turn: "c \<and> \<not> performsRescue i (turnState i c jm fm s) \<longrightarrow>
            update (Friendly i) c jm fm (turnState i c jm fm s)
              = decide i True fm (beforeDecision i jm (turnState i c jm fm s))
            \<and> health_d (hostileDrones (beforeDecision i jm (turnState i c jm fm s)) ! k)
              = health_d (hostileDrones (turnState i c jm fm s) ! k)
                - (if jm \<and> 0 < health_d (hostileDrones (turnState i c jm fm s) ! k)
                      \<and> calculateDistance (friendlyDrones s ! i) (pos_d (hostileDrones s ! k))
                          \<le> JAMMING_RANGE
                   then 1 / 10 else 0)"
    using turn_jamming[OF assms, of c jm fm] by blast
  have m3: "\<not> performsRescue i s \<longrightarrow>
            updateFriendly i True True fm s = decide i True fm (jamming i (beforeDecision i False s))
            \<and> map health_d (hostileDrones (beforeDecision i False s)) = map health_d (hostileDrones s)"
    using updateFriendly_modes(3)[of i s True fm] by (simp add: beforeDecision_jamming)
  have m2: "performsRescue i s \<longrightarrow> hostileDrones (updateFriendly i True jm fm s) = hostileDrones s"
    by (simp add: updateFriendly_modes(2))
  have m1: "hostileDrones (updateFriendly i False jm fm s) = hostileDrones s"
    by (simp add: updateFriendly_modes(1))
  show ?thesis
    by (intro conjI)
       (fact jamming_exact[OF assms] jammers_unfold ex tick_jamming_bound[OF assms(1)] turn
          turnState_def m1 m2 m3)+
qed

theorem jamming_damage_witness:
  "health_d (hostileDrones (jamming 0 pairSim) ! 0) = 999 / 10
   \<and> jammers 0 True True Circle pairSim = [0, 1]
   \<and> health_d (hostileDrones (updatePhase True True Circle pairSim) ! 0) = 998 / 10
   \<and> map health_d (hostileDrones (updateSimulation True True Circle pairSim)) = [998 / 10]
   \<and> hostileDrones (updateFriendly 0 False True Circle pairSim) = hostileDrones pairSim"
proof -
  have a: "0 < length (hostileDrones pairSim)" "0 < length (friendlyDrones pairSim)"
    "length (friendlyDrones pairSim) = 2" "length (hostileDrones pairSim) = 1"
    "calculateDistance (friendlyDrones pairSim ! 0) (pos_d (hostileDrones pairSim ! 0)) = 60"
    "calculateDistance (friendlyDrones pairSim ! 1) (pos_d (hostileDrones pairSim ! 0)) = 60"
    "health_d (hostileDrones pairSim ! 0) = 100"
    by (simp_all add: pairSim_def eval_defs)
  have r0: "\<not> performsRescue 0
               (fold (\<lambda>b. update (Friendly b) True True Circle) [0..<0]
                  (clearJammed (ageParticles pairSim)))"
    by (simp add: pairSim_def performsRescue_def friendly_tick_defs eval_defs)
  have r1: "\<not> performsRescue 1
               (fold (\<lambda>b. update (Friendly b) True True Circle) [0..<1]
                  (clearJammed (ageParticles pairSim)))"
    by (simp add: pairSim_def performsRescue_def friendly_tick_defs eval_defs)
  note t = jamming_damage[OF a(1,2), of True True Circle]
  have one: "health_d (hostileDrones (jamming 0 pairSim) ! 0) =
           (if 0 < health_d (hostileDrones pairSim ! 0)
               \<and> calculateDistance (friendlyDrones pairSim ! 0)
                    (pos_d (hostileDrones pairSim ! 0)) \<le> JAMMING_RANGE
            then health_d (hostileDrones pairSim ! 0) - 1 / 10
            else health_d (hostileDrones pairSim ! 0))"
    using t by (elim conjE) assumption
  have js: "jammers 0 True True Circle pairSim
           = filter (\<lambda>a. True \<and> True
                        \<and> \<not> performsRescue a
                              (fold (\<lambda>b. update (Friendly b) True True Circle) [0..<a]
                                 (clearJammed (ageParticles pairSim)))
                        \<and> calculateDistance (friendlyDrones pairSim ! a)
                             (pos_d (hostileDrones pairSim ! 0)) \<le> JAMMING_RANGE)
               [0..<length (friendlyDrones pairSim)]"
    using t by (elim conjE) assumption
  have ex: "(\<forall>a<length (friendlyDrones pairSim).
              FIRING_RANGE < calculateDistance (friendlyDrones pairSim ! a)
                               (pos_d (hostileDrones pairSim ! 0)))
            \<and> (1 / 10) * real (length (jammers 0 True True Circle pairSim))
                < health_d (hostileDrones pairSim ! 0)
          \<longrightarrow> health_d (hostileDrones (updatePhase True True Circle pairSim) ! 0)
                = health_d (hostileDrones pairSim ! 0)
                  - (1 / 10) * real (length (jammers 0 True True Circle pairSim))"
    using t by (elim conjE) assumption
  have off: "hostileDrones (updateFriendly 0 False True Circle pairSim) = hostileDrones pairSim"
    using t by (elim conjE) assumption
  have upt2: "[0..<2] = [0, 1]" by (simp add: upt_rec)
  have jl: "jammers 0 True True Circle pairSim = [0, 1]"
    unfolding js a(3) upt2 using r0 r1 a(5,6) by (simp add: JAMMING_RANGE_def)
  have far: "\<forall>a<length (friendlyDrones pairSim).
              FIRING_RANGE < calculateDistance (friendlyDrones pairSim ! a)
                               (pos_d (hostileDrones pairSim ! 0))"
    unfolding a(3) using a(5,6) by (simp add: FIRING_RANGE_def less_Suc_eq numeral_2_eq_2)
  have ph: "health_d (hostileDrones (updatePhase True True Circle pairSim) ! 0) = 998 / 10"
    using ex far unfolding jl a(7) by simp
  have len: "length (hostileDrones (updatePhase True True Circle pairSim)) = 1"
    using updatePhase_nth(2)[of True True Circle pairSim] a(4) by simp
  then obtain h where h: "hostileDrones (updatePhase True True Circle pairSim) = [h]"
    by (cases "hostileDrones (updatePhase True True Circle pairSim)") auto
  have sim: "map health_d (hostileDrones (updateSimulation True True Circle pairSim)) = [998 / 10]"
    using ph unfolding casualties_proj h by simp
  have first: "health_d (hostileDrones (jamming 0 pairSim) ! 0) = 999 / 10"
    unfolding one a(5,7) by (simp add: JAMMING_RANGE_def)
  show ?thesis using first jl ph sim off by blast
qed

text \<open>
  The claim as stated fails with communication disabled: jamming is enabled, the
  hostile is 60 away from the friendly and has 100 health points, and after the tick
  it still has 100 and is not marked as jammed.
\<close>

theorem no_jamming_without_communication:
  "calculateDistance (friendlyDrones jamRangeSim ! 0) (pos_d (hostileDrones jamRangeSim ! 0)) = 60
   \<and> map health_d (hostileDrones jamRangeSim) = [100]
   \<and> map health_d (hostileDrones (updateSimulation False True Circle jamRangeSim)) = [100]
   \<and> map isJammed (hostileDrones (updateSimulation False True Circle jamRangeSim)) = [False]"
  by (simp add: casualties_proj jamRangeSim_def tick_defs eval_defs)

subsection \<open>Denominators of the ratio computations\<close>









end
